theory Spec2Isabelle
  imports Complex_Main "HOL-Library.Multiset"
begin

section \<open>The CDP pipeline: data model\<close>

text \<open>
  A shallow embedding of \<^verbatim>\<open>cdp_pipeline\<close> (\<^verbatim>\<open>core.py\<close>, \<^verbatim>\<open>breakpoint.py\<close>,
  \<^verbatim>\<open>executor.py\<close>, \<^verbatim>\<open>pipeline.py\<close>).

  Conventions of the embedding:
  \<^item> Python floats and ints used as times, values and durations are exact rationals
    (\<^typ>\<open>rat\<close>): rounding, infinities and NaN are outside the model.
  \<^item> A \<^verbatim>\<open>pathlib.Path\<close> is the string that \<^verbatim>\<open>str\<close> gives for it.
  \<^item> Every exception is a value of type \<open>error\<close>; a function that can raise returns
    \<open>error + 'a\<close>, and a function that also has effects returns the state it leaves
    behind, on the failure path as well.
  \<^item> The methods \<^verbatim>\<open>_next_temp_file\<close>, \<^verbatim>\<open>_process_breakpoints\<close> and
    \<^verbatim>\<open>_execute_cdp_command\<close> are named without their leading underscore, and
    \<^verbatim>\<open>PipelineExecutor.__init__\<close> is \<open>PipelineExecutor_init\<close>. The \<^verbatim>\<open>verbose\<close> option only
    prints and is left out.
\<close>

datatype FileFormat = WAV | ANA

datatype ChannelMode = MONO | STEREO

datatype error =
    ValueError string
  | RuntimeError string
  | FileNotFoundError string
  | IndexError
  | SameFileError
  | IsADirectoryError
  | ShError string

record AudioFile =
  path :: string
  format :: FileFormat
  channels :: ChannelMode
  channel_index :: "int option"

definition is_mono :: "AudioFile \<Rightarrow> bool" where
  "is_mono f = (channels f = MONO)"

definition is_stereo :: "AudioFile \<Rightarrow> bool" where
  "is_stereo f = (channels f = STEREO)"

definition is_wav :: "AudioFile \<Rightarrow> bool" where
  "is_wav f = (format f = WAV)"

definition is_ana :: "AudioFile \<Rightarrow> bool" where
  "is_ana f = (format f = ANA)"

text \<open>\<^verbatim>\<open>FileFormat.value\<close>: the extension string of the enum member.\<close>

fun format_value :: "FileFormat \<Rightarrow> string" where
  "format_value WAV = ''wav''"
| "format_value ANA = ''ana''"

subsection \<open>Strings and paths\<close>

text \<open>
  The string and \<^verbatim>\<open>pathlib\<close> operations the code uses. Paths are taken in the
  normal form \<^verbatim>\<open>str(Path(...))\<close> prints: no trailing slash, no doubled slash.
\<close>

fun starts_with :: "string \<Rightarrow> string \<Rightarrow> bool" where
  "starts_with [] s = True"
| "starts_with (p # ps) [] = False"
| "starts_with (p # ps) (c # cs) = (p = c \<and> starts_with ps cs)"

text \<open>\<^verbatim>\<open>s.replace(old, new)\<close> for a non-empty \<open>old\<close> (the code passes \<^verbatim>\<open>".wav"\<close>).\<close>

fun str_replace :: "string \<Rightarrow> string \<Rightarrow> string \<Rightarrow> string" where
  "str_replace old new [] = []"
| "str_replace old new (c # cs) =
     (if old \<noteq> [] \<and> starts_with old (c # cs)
      then new @ str_replace old new (drop (length old - 1) cs)
      else c # str_replace old new cs)"

definition digit_char :: "nat \<Rightarrow> char" where
  "digit_char d = ''0123456789'' ! d"

text \<open>\<^verbatim>\<open>str(n)\<close> of a non-negative int, \<^verbatim>\<open>str(i)\<close> of an int, and the padding of \<^verbatim>\<open>{n:04d}\<close>.\<close>

fun str_nat :: "nat \<Rightarrow> string" where
  "str_nat n = (if n < 10 then [digit_char n] else str_nat (n div 10) @ [digit_char (n mod 10)])"

declare str_nat.simps [simp del]

definition str_int :: "int \<Rightarrow> string" where
  "str_int i = (if i < 0 then CHR ''-'' # str_nat (nat (- i)) else str_nat (nat i))"

definition zero_pad :: "nat \<Rightarrow> string \<Rightarrow> string" where
  "zero_pad w s = replicate (w - length s) (CHR ''0'') @ s"

fun join_strings :: "string \<Rightarrow> string list \<Rightarrow> string" where
  "join_strings sep [] = []"
| "join_strings sep [x] = x"
| "join_strings sep (x # y # ys) = x @ sep @ join_strings sep (y # ys)"

text \<open>\<^verbatim>\<open>Path.name\<close>, \<^verbatim>\<open>Path.suffix\<close>, \<^verbatim>\<open>Path.stem\<close>, \<^verbatim>\<open>Path.parent\<close> and \<^verbatim>\<open>dir / name\<close>.\<close>

definition path_name :: "string \<Rightarrow> string" where
  "path_name p = rev (takeWhile (\<lambda>c. c \<noteq> CHR ''/'') (rev p))"

definition path_suffix :: "string \<Rightarrow> string" where
  "path_suffix p =
     (let n = path_name p; ext = takeWhile (\<lambda>c. c \<noteq> CHR ''.'') (rev n)
      in if CHR ''.'' \<in> set n \<and> ext \<noteq> [] \<and> length ext + 1 < length n
         then CHR ''.'' # rev ext else [])"

definition path_stem :: "string \<Rightarrow> string" where
  "path_stem p =
     (let n = path_name p; ext = takeWhile (\<lambda>c. c \<noteq> CHR ''.'') (rev n)
      in if CHR ''.'' \<in> set n \<and> ext \<noteq> [] \<and> length ext + 1 < length n
         then take (length n - length ext - 1) n else n)"

definition path_parent :: "string \<Rightarrow> string" where
  "path_parent p =
     (let pre = rev (dropWhile (\<lambda>c. c \<noteq> CHR ''/'') (rev p))
      in if pre = [] then ''.'' else if pre = ''/'' then ''/'' else butlast pre)"

definition path_join :: "string \<Rightarrow> string \<Rightarrow> string" where
  "path_join d n = (if starts_with ''/'' n then n else d @ ''/'' @ n)"

definition in_dir :: "string \<Rightarrow> string \<Rightarrow> bool" where
  "in_dir d p = starts_with (d @ ''/'') p"

subsection \<open>Automation curves (\<^verbatim>\<open>breakpoint.py\<close>)\<close>

text \<open>
  \<^verbatim>\<open>BreakpointValue.time\<close> is \<^verbatim>\<open>Union[float, str]\<close>: a number (\<open>Num\<close>) or a string
  (\<open>Str\<close>). The field \<^verbatim>\<open>value\<close> is called \<open>val\<close> here.
\<close>

datatype time_spec = Num rat | Str string

record BreakpointValue =
  time :: time_spec
  val :: rat

record Breakpoint =
  points :: "BreakpointValue list"
  bp_name :: "string option"

text \<open>
  What the code reads from the world outside it. Python's \<^verbatim>\<open>float(str)\<close> and
  \<^verbatim>\<open>str(float)\<close> are library functions taken as parameters; the three \<open>sh\<close> fields
  say how the external toolset answers, given the effects performed so far.
\<close>

datatype event =
    Sh string "string list"
  | Cdp string "string list"
  | Copy string string
  | WriteText string "(rat \<times> rat) list"
  | Unlink string
  | Mkdir string
  | Rmtree string
  | Warn rat rat

record env =
  float_of_str :: "string \<Rightarrow> rat option"
  str_of_float :: "rat \<Rightarrow> string"
  sh_ok :: "event list \<Rightarrow> string \<Rightarrow> string list \<Rightarrow> bool"
  sfprops_c :: "event list \<Rightarrow> string \<Rightarrow> int option"
  sndinfo_duration :: "event list \<Rightarrow> string \<Rightarrow> rat option"
  mkdtemp :: "event list \<Rightarrow> string"

text \<open>\<^verbatim>\<open>s.endswith('%')\<close> and \<^verbatim>\<open>s.rstrip('%')\<close>.\<close>

definition ends_with_percent :: "string \<Rightarrow> bool" where
  "ends_with_percent s = (s \<noteq> [] \<and> last s = CHR ''%'')"

definition rstrip_percent :: "string \<Rightarrow> string" where
  "rstrip_percent s = rev (dropWhile (\<lambda>c. c = CHR ''%'') (rev s))"

fun is_percentage :: "BreakpointValue \<Rightarrow> bool" where
  "is_percentage p = (case time p of Num t \<Rightarrow> False | Str s \<Rightarrow> ends_with_percent s)"

text \<open>
  \<^verbatim>\<open>BreakpointValue.get_absolute_time\<close>. \<^verbatim>\<open>float\<close> of a string that is no number raises
  \<^verbatim>\<open>ValueError\<close>.
\<close>

definition get_absolute_time :: "env \<Rightarrow> BreakpointValue \<Rightarrow> rat \<Rightarrow> error + rat" where
  "get_absolute_time e p duration =
     (if is_percentage p then
        (case time p of
           Num t \<Rightarrow> Inr t
         | Str s \<Rightarrow>
             (case float_of_str e (rstrip_percent s) of
                None \<Rightarrow> Inl (ValueError ''could not convert string to float'')
              | Some percentage \<Rightarrow> Inr ((percentage / 100) * duration)))
      else
        (case time p of
           Num t \<Rightarrow> Inr t
         | Str s \<Rightarrow>
             (case float_of_str e s of
                None \<Rightarrow> Inl (ValueError ''could not convert string to float'')
              | Some t \<Rightarrow> Inr t)))"

text \<open>
  \<^verbatim>\<open>Breakpoint.to_absolute_times\<close>. The first loop fills \<^verbatim>\<open>result\<close> and
  \<^verbatim>\<open>original_order\<close>; \<^verbatim>\<open>result.sort(key=lambda x: x[0])\<close> is a stable sort on the time;
  the second loop calls \<^verbatim>\<open>warnings.warn\<close> for the points whose original time is a number
  and whose absolute time is beyond the duration. A diagnostic is the call of
  \<^verbatim>\<open>warnings.warn\<close>, recorded with the original time and the duration its message names.
\<close>

datatype diagnostic = BeyondDuration rat rat

fun to_absolute_loop ::
  "env \<Rightarrow> rat \<Rightarrow> BreakpointValue list \<Rightarrow> (rat \<times> rat) list \<Rightarrow> (rat \<times> time_spec) list
    \<Rightarrow> error + ((rat \<times> rat) list \<times> (rat \<times> time_spec) list)" where
  "to_absolute_loop e duration [] result original_order = Inr (result, original_order)"
| "to_absolute_loop e duration (point # rest) result original_order =
     (case get_absolute_time e point duration of
        Inl err \<Rightarrow> Inl err
      | Inr abs_time \<Rightarrow>
          to_absolute_loop e duration rest
            (result @ [(abs_time, val point)])
            (original_order @ [(abs_time, time point)]))"

fun warn_loop :: "rat \<Rightarrow> (rat \<times> time_spec) list \<Rightarrow> diagnostic list" where
  "warn_loop duration [] = []"
| "warn_loop duration ((t, original) # rest) =
     (case original of
        Num n \<Rightarrow> (if t > duration then [BeyondDuration n duration] else [])
      | Str s \<Rightarrow> [])
     @ warn_loop duration rest"

definition to_absolute_times ::
  "env \<Rightarrow> Breakpoint \<Rightarrow> rat \<Rightarrow> error + ((rat \<times> rat) list \<times> diagnostic list)" where
  "to_absolute_times e bp duration =
     (case to_absolute_loop e duration (points bp) [] [] of
        Inl err \<Rightarrow> Inl err
      | Inr (result, original_order) \<Rightarrow>
          Inr (sort_key fst result, warn_loop duration original_order))"

text \<open>
  The absolute time the specification gives a point: a percentage \<open>P\<close> of the duration
  \<open>D\<close> is \<open>D * P / 100\<close>, an absolute time is itself. \<open>None\<close> where the string is no
  number.
\<close>

definition spec_absolute_time :: "env \<Rightarrow> rat \<Rightarrow> time_spec \<Rightarrow> rat option" where
  "spec_absolute_time e D ts =
     (case ts of
        Num t \<Rightarrow> Some t
      | Str s \<Rightarrow>
          (if ends_with_percent s
           then map_option (\<lambda>P. D * P / 100) (float_of_str e (rstrip_percent s))
           else float_of_str e s))"

definition well_formed_time :: "env \<Rightarrow> time_spec \<Rightarrow> bool" where
  "well_formed_time e ts = (spec_absolute_time e 0 ts \<noteq> None)"

text \<open>The diagnostics the specification gives one point resolved against \<open>D\<close>.\<close>

definition point_diagnostics :: "rat \<Rightarrow> BreakpointValue \<Rightarrow> diagnostic list" where
  "point_diagnostics D p =
     (case time p of
        Num t \<Rightarrow> (if t > D then [BeyondDuration t D] else [])
      | Str s \<Rightarrow> [])"

subsection \<open>Operations (\<^verbatim>\<open>core.py\<close>)\<close>

text \<open>
  \<^verbatim>\<open>CDPOperation.params\<close> is \<^verbatim>\<open>List[Any]\<close>: ints, floats, strings (file paths) and
  \<^verbatim>\<open>Breakpoint\<close> curves. \<^verbatim>\<open>mode\<close> is \<^verbatim>\<open>Optional[Union[str, int]]\<close>.
\<close>

datatype param = IntParam int | FloatParam rat | StrParam string | Curve Breakpoint

datatype mode_value = ModeInt int | ModeStr string

record OperationRequirements =
  req_format :: FileFormat
  req_channels :: ChannelMode

record CDPOperation =
  name :: string
  program :: string
  subcommand :: "string option"
  mode :: "mode_value option"
  input_requirements :: OperationRequirements
  output_format :: FileFormat
  params :: "param list"
  multi_input :: bool

fun is_automatable :: "param \<Rightarrow> bool" where
  "is_automatable (Curve bp) = True"
| "is_automatable p = False"

text \<open>\<^verbatim>\<open>Breakpoint.__str__\<close> and \<^verbatim>\<open>str(p)\<close> of a parameter, \<^verbatim>\<open>str(self.mode)\<close>.\<close>

fun str_time :: "env \<Rightarrow> time_spec \<Rightarrow> string" where
  "str_time e (Num t) = str_of_float e t"
| "str_time e (Str s) = s"

definition breakpoint_str :: "env \<Rightarrow> Breakpoint \<Rightarrow> string" where
  "breakpoint_str e bp =
     (let name_str = (case bp_name bp of
                        None \<Rightarrow> []
                      | Some n \<Rightarrow> (if n \<noteq> [] then n @ '': '' else []));
          points_str = join_strings '', ''
            (map (\<lambda>p. ''('' @ str_time e (time p) @ '', '' @ str_of_float e (val p) @ '')'')
               (points bp))
      in ''Breakpoint('' @ name_str @ points_str @ '')'')"

fun str_param :: "env \<Rightarrow> param \<Rightarrow> string" where
  "str_param e (IntParam i) = str_int i"
| "str_param e (FloatParam r) = str_of_float e r"
| "str_param e (StrParam s) = s"
| "str_param e (Curve bp) = breakpoint_str e bp"

fun str_mode :: "mode_value \<Rightarrow> string" where
  "str_mode (ModeInt i) = str_int i"
| "str_mode (ModeStr s) = s"

text \<open>
  \<^verbatim>\<open>CDPOperation.get_command_args\<close>. \<^verbatim>\<open>if self.subcommand:\<close> is false for \<^verbatim>\<open>None\<close> and for
  the empty string; \<^verbatim>\<open>input_files[0]\<close> raises \<^verbatim>\<open>IndexError\<close> on an empty list.
\<close>

definition get_command_args ::
  "env \<Rightarrow> CDPOperation \<Rightarrow> AudioFile list \<Rightarrow> AudioFile \<Rightarrow> error + string list" where
  "get_command_args e op input_files output_file =
     (let args = [];
          args = (case subcommand op of
                    None \<Rightarrow> args
                  | Some s \<Rightarrow> (if s \<noteq> [] then args @ [s] else args));
          args = (case mode op of
                    None \<Rightarrow> args
                  | Some m \<Rightarrow> args @ [str_mode m])
      in if multi_input op
         then Inr (args @ map path input_files @ [path output_file]
                     @ map (str_param e) (params op))
         else (case input_files of
                 [] \<Rightarrow> Inl IndexError
               | f # rest \<Rightarrow>
                   Inr (args @ [path f] @ [path output_file]
                          @ map (str_param e) (params op))))"

subsection \<open>The world and the executor's state\<close>

text \<open>
  The file system is a map from paths to contents and a set of directories. A file
  written by the external toolset is opaque (\<open>Audio\<close>); a breakpoint file holds the
  resolved points it was written from (the six-decimal text form is not modelled).
  \<open>trace\<close> lists the effects performed, oldest first; \<open>counter\<close> is
  \<^verbatim>\<open>PipelineExecutor._counter\<close>.
\<close>

datatype content = Audio | Text "(rat \<times> rat) list"

record state =
  files :: "string \<Rightarrow> content option"
  dirs :: "string set"
  counter :: nat
  trace :: "event list"

record executor =
  temp_dir :: string
  keep_temp :: bool
  temp_dir_obj :: bool

definition log :: "event \<Rightarrow> state \<Rightarrow> state" where
  "log ev st = st\<lparr>trace := trace st @ [ev]\<rparr>"

definition path_exists :: "state \<Rightarrow> string \<Rightarrow> bool" where
  "path_exists st p = (files st p \<noteq> None \<or> p \<in> dirs st)"

fun create_files :: "string list \<Rightarrow> state \<Rightarrow> state" where
  "create_files [] st = st"
| "create_files (p # ps) st = create_files ps (st\<lparr>files := (files st)(p \<mapsto> Audio)\<rparr>)"

text \<open>
  A direct call \<^verbatim>\<open>sh.prog(*args)\<close>. The toolset is opaque: whether the call succeeds is
  read from \<open>sh_ok\<close>; a successful call leaves the output files \<open>outs\<close> the code goes on
  to use, a failed call raises and leaves no file.
\<close>

definition sh_run ::
  "env \<Rightarrow> string \<Rightarrow> string list \<Rightarrow> string list \<Rightarrow> state \<Rightarrow> (error + unit) \<times> state" where
  "sh_run e prog args outs st =
     (if sh_ok e (trace st) prog args
      then (Inr (), create_files outs (log (Sh prog args) st))
      else (Inl (ShError prog), log (Sh prog args) st))"

text \<open>\<^verbatim>\<open>shutil.copy(src, dst)\<close>, \<^verbatim>\<open>Path.unlink()\<close>, \<^verbatim>\<open>mkdir\<close> and \<^verbatim>\<open>shutil.rmtree\<close>.\<close>

definition copy_file :: "string \<Rightarrow> string \<Rightarrow> state \<Rightarrow> (error + unit) \<times> state" where
  "copy_file src dst st =
     (case files st src of
        None \<Rightarrow> (Inl (FileNotFoundError src), log (Copy src dst) st)
      | Some c \<Rightarrow>
          (if src = dst then (Inl SameFileError, log (Copy src dst) st)
           else (Inr (), log (Copy src dst) (st\<lparr>files := (files st)(dst \<mapsto> c)\<rparr>))))"

definition unlink :: "string \<Rightarrow> state \<Rightarrow> (error + unit) \<times> state" where
  "unlink p st =
     (case files st p of
        Some c \<Rightarrow> (Inr (), log (Unlink p) (st\<lparr>files := (files st)(p := None)\<rparr>))
      | None \<Rightarrow>
          (if p \<in> dirs st then (Inl IsADirectoryError, log (Unlink p) st)
           else (Inl (FileNotFoundError p), log (Unlink p) st)))"

definition mkdir :: "string \<Rightarrow> state \<Rightarrow> state" where
  "mkdir d st = log (Mkdir d) (st\<lparr>dirs := insert d (dirs st)\<rparr>)"

definition rmtree :: "string \<Rightarrow> state \<Rightarrow> state" where
  "rmtree d st =
     log (Rmtree d)
       (st\<lparr>files := (\<lambda>p. if in_dir d p then None else files st p),
           dirs := Set.filter (\<lambda>x. x \<noteq> d \<and> \<not> in_dir d x) (dirs st)\<rparr>)"

subsection \<open>The executor (\<^verbatim>\<open>executor.py\<close>)\<close>

text \<open>
  \<^verbatim>\<open>PipelineExecutor.__init__\<close>: a given directory is created if missing; otherwise a
  \<^verbatim>\<open>tempfile.TemporaryDirectory\<close> is made, whose name the environment chooses.
\<close>

definition PipelineExecutor_init ::
  "env \<Rightarrow> string option \<Rightarrow> bool \<Rightarrow> state \<Rightarrow> executor \<times> state" where
  "PipelineExecutor_init e td keep st =
     (case td of
        Some d \<Rightarrow>
          (\<lparr>temp_dir = d, keep_temp = keep, temp_dir_obj = False\<rparr>,
           mkdir d (st\<lparr>counter := 0\<rparr>))
      | None \<Rightarrow>
          (\<lparr>temp_dir = mkdtemp e (trace st), keep_temp = keep, temp_dir_obj = True\<rparr>,
           mkdir (mkdtemp e (trace st)) (st\<lparr>counter := 0\<rparr>)))"

text \<open>\<^verbatim>\<open>cleanup\<close>, which \<^verbatim>\<open>__exit__\<close> calls.\<close>

definition cleanup :: "executor \<Rightarrow> state \<Rightarrow> state" where
  "cleanup ex st =
     (if \<not> keep_temp ex \<and> temp_dir_obj ex then rmtree (temp_dir ex) st
      else if \<not> keep_temp ex then rmtree (temp_dir ex) st
      else st)"

definition next_temp_file :: "executor \<Rightarrow> string \<Rightarrow> string \<Rightarrow> state \<Rightarrow> string \<times> state" where
  "next_temp_file ex base_name extension st =
     (let st' = st\<lparr>counter := counter st + 1\<rparr>
      in (path_join (temp_dir ex)
            (base_name @ ''_'' @ zero_pad 4 (str_nat (counter st')) @ ''.'' @ extension),
          st'))"

text \<open>\<^verbatim>\<open>ChannelMode(channel_count)\<close>: a \<^verbatim>\<open>ValueError\<close> for any count but 1 and 2.\<close>

definition channel_mode_of :: "int \<Rightarrow> ChannelMode option" where
  "channel_mode_of n = (if n = 1 then Some MONO else if n = 2 then Some STEREO else None)"

text \<open>
  \<^verbatim>\<open>get_file_info\<close>. The channel count of a \<^verbatim>\<open>.wav\<close> file is asked of \<^verbatim>\<open>sfprops -c\<close>
  (\<open>sfprops_c\<close> is the integer read from its output, \<open>None\<close> when the call or the
  parse fails); a \<^verbatim>\<open>.ana\<close> file is taken to be mono.
\<close>

definition get_file_info ::
  "env \<Rightarrow> string \<Rightarrow> state \<Rightarrow> (error + (FileFormat \<times> ChannelMode)) \<times> state" where
  "get_file_info e p st =
     (case (if path_suffix p = ''.ana'' then Inr ANA
            else if path_suffix p = ''.wav'' then Inr WAV
            else Inl (ValueError ''Unknown file format'')) of
        Inl err \<Rightarrow> (Inl err, st)
      | Inr fmt \<Rightarrow>
          (if fmt = WAV then
             (let st' = log (Sh ''sfprops'' [''-c'', p]) st
              in case sfprops_c e (trace st) p of
                   None \<Rightarrow> (Inl (RuntimeError ''Failed to get channel info''), st')
                 | Some channel_count \<Rightarrow>
                     (case channel_mode_of channel_count of
                        None \<Rightarrow> (Inl (RuntimeError ''Failed to get channel info''), st')
                      | Some chans \<Rightarrow> (Inr (fmt, chans), st')))
           else (Inr (fmt, MONO), st)))"

text \<open>
  \<^verbatim>\<open>get_duration\<close>: one call of \<^verbatim>\<open>sndinfo len\<close>; \<open>sndinfo_duration\<close> is the number parsed
  after \<^verbatim>\<open>DURATION:\<close>, \<open>None\<close> when the call or the parse fails.
\<close>

definition get_duration :: "env \<Rightarrow> AudioFile \<Rightarrow> state \<Rightarrow> (error + rat) \<times> state" where
  "get_duration e audio_file st =
     (let st' = log (Sh ''sndinfo'' [''len'', path audio_file]) st
      in case sndinfo_duration e (trace st) (path audio_file) of
           None \<Rightarrow> (Inl (RuntimeError ''Failed to get duration''), st')
         | Some d \<Rightarrow> (Inr d, st'))"

text \<open>
  \<^verbatim>\<open>Breakpoint.write_to_file\<close> and \<^verbatim>\<open>write_breakpoint_file\<close>. The diagnostics of the
  resolution are logged as \<open>Warn\<close> events before the file is written.
\<close>

fun log_diagnostics :: "diagnostic list \<Rightarrow> state \<Rightarrow> state" where
  "log_diagnostics [] st = st"
| "log_diagnostics (BeyondDuration t d # ds) st = log_diagnostics ds (log (Warn t d) st)"

definition write_to_file ::
  "env \<Rightarrow> Breakpoint \<Rightarrow> string \<Rightarrow> rat \<Rightarrow> state \<Rightarrow> (error + string) \<times> state" where
  "write_to_file e bp filepath duration st =
     (case to_absolute_times e bp duration of
        Inl err \<Rightarrow> (Inl err, st)
      | Inr (absolute_points, warns) \<Rightarrow>
          (let st1 = log_diagnostics warns st
           in (Inr filepath,
               log (WriteText filepath absolute_points)
                 (st1\<lparr>files := (files st1)(filepath \<mapsto> Text absolute_points)\<rparr>))))"

definition write_breakpoint_file ::
  "env \<Rightarrow> executor \<Rightarrow> Breakpoint \<Rightarrow> rat \<Rightarrow> string \<Rightarrow> state \<Rightarrow> (error + string) \<times> state" where
  "write_breakpoint_file e ex bp duration base_name st =
     (let (filepath, st1) = next_temp_file ex base_name ''txt'' st
      in write_to_file e bp filepath duration st1)"

text \<open>\<^verbatim>\<open>split_stereo\<close>: copy into the scratch directory, \<^verbatim>\<open>housekeep chans 2\<close>, two descriptors.\<close>

definition channel_path :: "string \<Rightarrow> nat \<Rightarrow> string" where
  "channel_path temp_input i =
     path_join (path_parent temp_input)
       (str_replace ''.wav'' (''_c'' @ str_nat i @ ''.wav'') (path_name temp_input))"

definition split_stereo ::
  "env \<Rightarrow> executor \<Rightarrow> AudioFile \<Rightarrow> state \<Rightarrow> (error + AudioFile list) \<times> state" where
  "split_stereo e ex audio_file st =
     (if \<not> is_stereo audio_file then (Inr [audio_file], st)
      else
        (let temp_input = path_join (temp_dir ex) (path_name (path audio_file))
         in case copy_file (path audio_file) temp_input st of
              (Inl err, st1) \<Rightarrow> (Inl err, st1)
            | (Inr u, st1) \<Rightarrow>
                (case sh_run e ''housekeep'' [''chans'', ''2'', temp_input]
                        [channel_path temp_input 1, channel_path temp_input 2] st1 of
                   (Inl err, st2) \<Rightarrow> (Inl err, st2)
                 | (Inr u, st2) \<Rightarrow>
                     (Inr [\<lparr>path = channel_path temp_input 1, format = WAV,
                             channels = MONO, channel_index = Some 1\<rparr>,
                           \<lparr>path = channel_path temp_input 2, format = WAV,
                             channels = MONO, channel_index = Some 2\<rparr>],
                      st2))))"

text \<open>\<^verbatim>\<open>merge_stereo\<close>: \<^verbatim>\<open>submix interleave\<close> of two mono WAV files.\<close>

definition merge_stereo ::
  "env \<Rightarrow> AudioFile \<Rightarrow> AudioFile \<Rightarrow> string \<Rightarrow> state \<Rightarrow> (error + AudioFile) \<times> state" where
  "merge_stereo e left right output_path st =
     (if \<not> is_mono left \<or> \<not> is_mono right
      then (Inl (ValueError ''Both inputs must be mono files''), st)
      else if \<not> is_wav left \<or> \<not> is_wav right
      then (Inl (ValueError ''Both inputs must be WAV files''), st)
      else
        (case sh_run e ''submix'' [''interleave'', path left, path right, output_path]
                [output_path] st of
           (Inl err, st1) \<Rightarrow> (Inl err, st1)
         | (Inr u, st1) \<Rightarrow>
             (Inr \<lparr>path = output_path, format = WAV, channels = STEREO,
                   channel_index = None\<rparr>, st1)))"

text \<open>\<^verbatim>\<open>convert_to_ana\<close> (\<^verbatim>\<open>pvoc anal 1\<close>) and \<^verbatim>\<open>convert_to_wav\<close> (\<^verbatim>\<open>pvoc synth\<close>).\<close>

definition convert_to_ana ::
  "env \<Rightarrow> executor \<Rightarrow> AudioFile \<Rightarrow> state \<Rightarrow> (error + AudioFile) \<times> state" where
  "convert_to_ana e ex audio_file st =
     (if \<not> is_wav audio_file then (Inr audio_file, st)
      else
        (let (output_path, st1) = next_temp_file ex (path_stem (path audio_file)) ''ana'' st
         in case sh_run e ''pvoc'' [''anal'', ''1'', path audio_file, output_path]
                   [output_path] st1 of
              (Inl err, st2) \<Rightarrow> (Inl err, st2)
            | (Inr u, st2) \<Rightarrow>
                (Inr \<lparr>path = output_path, format = ANA, channels = channels audio_file,
                      channel_index = channel_index audio_file\<rparr>, st2)))"

definition convert_to_wav ::
  "env \<Rightarrow> executor \<Rightarrow> AudioFile \<Rightarrow> state \<Rightarrow> (error + AudioFile) \<times> state" where
  "convert_to_wav e ex audio_file st =
     (if \<not> is_ana audio_file then (Inr audio_file, st)
      else
        (let (output_path, st1) = next_temp_file ex (path_stem (path audio_file)) ''wav'' st
         in case sh_run e ''pvoc'' [''synth'', path audio_file, output_path]
                   [output_path] st1 of
              (Inl err, st2) \<Rightarrow> (Inl err, st2)
            | (Inr u, st2) \<Rightarrow>
                (Inr \<lparr>path = output_path, format = WAV, channels = channels audio_file,
                      channel_index = channel_index audio_file\<rparr>, st2)))"

text \<open>
  \<^verbatim>\<open>prepare_inputs\<close>: the first loop handles the channels and fills \<^verbatim>\<open>prepared\<close>, the
  second loop handles the format and fills \<^verbatim>\<open>converted\<close>.
\<close>

fun prepare_channels ::
  "env \<Rightarrow> executor \<Rightarrow> ChannelMode \<Rightarrow> AudioFile list \<Rightarrow> AudioFile list \<Rightarrow> state
    \<Rightarrow> (error + AudioFile list) \<times> state" where
  "prepare_channels e ex required_channels [] prepared st = (Inr prepared, st)"
| "prepare_channels e ex required_channels (audio_file # rest) prepared st =
     (if required_channels = MONO \<and> is_stereo audio_file then
        (case split_stereo e ex audio_file st of
           (Inl err, st1) \<Rightarrow> (Inl err, st1)
         | (Inr mono_files, st1) \<Rightarrow>
             prepare_channels e ex required_channels rest (prepared @ mono_files) st1)
      else if required_channels = STEREO \<and> is_mono audio_file then
        (Inl (ValueError ''Cannot convert mono file to stereo''), st)
      else prepare_channels e ex required_channels rest (prepared @ [audio_file]) st)"

fun convert_formats ::
  "env \<Rightarrow> executor \<Rightarrow> FileFormat \<Rightarrow> AudioFile list \<Rightarrow> AudioFile list \<Rightarrow> state
    \<Rightarrow> (error + AudioFile list) \<times> state" where
  "convert_formats e ex required_format [] converted st = (Inr converted, st)"
| "convert_formats e ex required_format (audio_file # rest) converted st =
     (if required_format = ANA \<and> is_wav audio_file then
        (case convert_to_ana e ex audio_file st of
           (Inl err, st1) \<Rightarrow> (Inl err, st1)
         | (Inr f, st1) \<Rightarrow> convert_formats e ex required_format rest (converted @ [f]) st1)
      else if required_format = WAV \<and> is_ana audio_file then
        (case convert_to_wav e ex audio_file st of
           (Inl err, st1) \<Rightarrow> (Inl err, st1)
         | (Inr f, st1) \<Rightarrow> convert_formats e ex required_format rest (converted @ [f]) st1)
      else convert_formats e ex required_format rest (converted @ [audio_file]) st)"

definition prepare_inputs ::
  "env \<Rightarrow> executor \<Rightarrow> AudioFile list \<Rightarrow> FileFormat \<Rightarrow> ChannelMode \<Rightarrow> state
    \<Rightarrow> (error + AudioFile list) \<times> state" where
  "prepare_inputs e ex input_files required_format required_channels st =
     (case prepare_channels e ex required_channels input_files [] st of
        (Inl err, st1) \<Rightarrow> (Inl err, st1)
      | (Inr prepared, st1) \<Rightarrow> convert_formats e ex required_format prepared [] st1)"

text \<open>
  \<^verbatim>\<open>_process_breakpoints\<close>. The loop runs over \<^verbatim>\<open>enumerate(operation.params)\<close>; the
  result of \<^verbatim>\<open>dataclasses.replace\<close> is the operation with the new parameter list.
\<close>

fun process_params ::
  "env \<Rightarrow> executor \<Rightarrow> string \<Rightarrow> rat \<Rightarrow> nat \<Rightarrow> param list \<Rightarrow> param list \<Rightarrow> state
    \<Rightarrow> (error + param list) \<times> state" where
  "process_params e ex op_name duration i [] processed_params st = (Inr processed_params, st)"
| "process_params e ex op_name duration i (p # rest) processed_params st =
     (case p of
        Curve bp \<Rightarrow>
          (case write_breakpoint_file e ex bp duration
                  (op_name @ ''_param'' @ str_nat i) st of
             (Inl err, st1) \<Rightarrow> (Inl err, st1)
           | (Inr bp_file, st1) \<Rightarrow>
               process_params e ex op_name duration (i + 1) rest
                 (processed_params @ [StrParam bp_file]) st1)
      | _ \<Rightarrow>
          process_params e ex op_name duration (i + 1) rest (processed_params @ [p]) st)"

definition process_breakpoints ::
  "env \<Rightarrow> executor \<Rightarrow> CDPOperation \<Rightarrow> AudioFile list \<Rightarrow> state
    \<Rightarrow> (error + CDPOperation) \<times> state" where
  "process_breakpoints e ex operation input_files st =
     (if \<not> list_ex is_automatable (params operation) then (Inr operation, st)
      else
        (case input_files of
           [] \<Rightarrow> (Inl IndexError, st)
         | first # others \<Rightarrow>
             (case get_duration e first st of
                (Inl err, st1) \<Rightarrow> (Inl err, st1)
              | (Inr duration, st1) \<Rightarrow>
                  (case process_params e ex (name operation) duration 0
                          (params operation) [] st1 of
                     (Inl err, st2) \<Rightarrow> (Inl err, st2)
                   | (Inr processed_params, st2) \<Rightarrow>
                       (Inr (operation\<lparr>params := processed_params\<rparr>), st2)))))"

text \<open>
  \<^verbatim>\<open>_execute_cdp_command\<close>: every failure of the call is re-raised as \<^verbatim>\<open>RuntimeError\<close>.
  A successful operation leaves its output file \<open>out\<close>.
\<close>

definition execute_cdp_command ::
  "env \<Rightarrow> string \<Rightarrow> string list \<Rightarrow> string \<Rightarrow> state \<Rightarrow> (error + unit) \<times> state" where
  "execute_cdp_command e prog args out st =
     (if sh_ok e (trace st) prog args
      then (Inr (), create_files [out] (log (Cdp prog args) st))
      else (Inl (RuntimeError ''CDP command failed''), log (Cdp prog args) st))"

text \<open>
  Grouping by channel in \<^verbatim>\<open>execute_operation\<close>: the dict \<^verbatim>\<open>channels\<close> keeps its keys in
  the order of their first insertion, so it is an association list.
\<close>

fun group_append ::
  "int option \<Rightarrow> AudioFile \<Rightarrow> (int option \<times> AudioFile list) list
    \<Rightarrow> (int option \<times> AudioFile list) list" where
  "group_append k f [] = [(k, [f])]"
| "group_append k f ((k', fs) # rest) =
     (if k' = k then (k', fs @ [f]) # rest else (k', fs) # group_append k f rest)"

fun group_by_channel ::
  "AudioFile list \<Rightarrow> (int option \<times> AudioFile list) list
    \<Rightarrow> (int option \<times> AudioFile list) list" where
  "group_by_channel [] groups = groups"
| "group_by_channel (f # fs) groups =
     group_by_channel fs (group_append (channel_index f) f groups)"

text \<open>\<^verbatim>\<open>f"_c{channel_idx}" if channel_idx else ""\<close>: empty for \<^verbatim>\<open>None\<close> and for 0.\<close>

definition channel_suffix :: "int option \<Rightarrow> string" where
  "channel_suffix channel_idx =
     (case channel_idx of
        None \<Rightarrow> []
      | Some i \<Rightarrow> (if i \<noteq> 0 then ''_c'' @ str_int i else []))"

fun process_channels ::
  "env \<Rightarrow> executor \<Rightarrow> CDPOperation \<Rightarrow> string \<Rightarrow> (int option \<times> AudioFile list) list
    \<Rightarrow> AudioFile list \<Rightarrow> state \<Rightarrow> (error + AudioFile list) \<times> state" where
  "process_channels e ex operation output_base_name [] output_files st = (Inr output_files, st)"
| "process_channels e ex operation output_base_name ((channel_idx, channel_files) # rest)
       output_files st =
     (let (output_path, st1) =
            next_temp_file ex (output_base_name @ channel_suffix channel_idx)
              (format_value (output_format operation)) st;
          output_file = \<lparr>path = output_path, format = output_format operation,
                          channels = MONO, channel_index = channel_idx\<rparr>
      in case process_breakpoints e ex operation channel_files st1 of
           (Inl err, st2) \<Rightarrow> (Inl err, st2)
         | (Inr processed_operation, st2) \<Rightarrow>
             (case get_command_args e processed_operation channel_files output_file of
                Inl err \<Rightarrow> (Inl err, st2)
              | Inr cmd_args \<Rightarrow>
                  (case execute_cdp_command e (program processed_operation) cmd_args
                          output_path st2 of
                     (Inl err, st3) \<Rightarrow> (Inl err, st3)
                   | (Inr u, st3) \<Rightarrow>
                       process_channels e ex operation output_base_name rest
                         (output_files @ [output_file]) st3)))"

definition execute_operation ::
  "env \<Rightarrow> executor \<Rightarrow> CDPOperation \<Rightarrow> AudioFile list \<Rightarrow> string \<Rightarrow> state
    \<Rightarrow> (error + AudioFile list) \<times> state" where
  "execute_operation e ex operation input_files output_base_name st =
     (case prepare_inputs e ex input_files
             (req_format (input_requirements operation))
             (req_channels (input_requirements operation)) st of
        (Inl err, st1) \<Rightarrow> (Inl err, st1)
      | (Inr prepared_inputs, st1) \<Rightarrow>
          (if req_channels (input_requirements operation) = MONO then
             process_channels e ex operation output_base_name
               (group_by_channel prepared_inputs []) [] st1
           else
             (let (output_path, st2) =
                    next_temp_file ex output_base_name
                      (format_value (output_format operation)) st1;
                  output_file = \<lparr>path = output_path, format = output_format operation,
                                  channels = req_channels (input_requirements operation),
                                  channel_index = None\<rparr>
              in case process_breakpoints e ex operation prepared_inputs st2 of
                   (Inl err, st3) \<Rightarrow> (Inl err, st3)
                 | (Inr processed_operation, st3) \<Rightarrow>
                     (case get_command_args e processed_operation prepared_inputs
                             output_file of
                        Inl err \<Rightarrow> (Inl err, st3)
                      | Inr cmd_args \<Rightarrow>
                          (case execute_cdp_command e (program processed_operation)
                                  cmd_args output_path st3 of
                             (Inl err, st4) \<Rightarrow> (Inl err, st4)
                           | (Inr u, st4) \<Rightarrow> (Inr [output_file], st4))))))"

subsection \<open>The pipeline (\<^verbatim>\<open>pipeline.py\<close>)\<close>

text \<open>The loops of \<^verbatim>\<open>Pipeline.run\<close>: loading the inputs, the operations, the final conversion.\<close>

fun load_inputs ::
  "env \<Rightarrow> string list \<Rightarrow> AudioFile list \<Rightarrow> state \<Rightarrow> (error + AudioFile list) \<times> state" where
  "load_inputs e [] audio_files st = (Inr audio_files, st)"
| "load_inputs e (input_path # rest) audio_files st =
     (if \<not> path_exists st input_path then (Inl (FileNotFoundError input_path), st)
      else
        (case get_file_info e input_path st of
           (Inl err, st1) \<Rightarrow> (Inl err, st1)
         | (Inr (fmt, chans), st1) \<Rightarrow>
             load_inputs e rest
               (audio_files @ [\<lparr>path = input_path, format = fmt, channels = chans,
                                 channel_index = None\<rparr>]) st1))"

definition operation_name :: "nat \<Rightarrow> CDPOperation \<Rightarrow> string" where
  "operation_name i operation = ''op'' @ zero_pad 2 (str_nat i) @ ''_'' @ name operation"

fun run_operations ::
  "env \<Rightarrow> executor \<Rightarrow> nat \<Rightarrow> CDPOperation list \<Rightarrow> AudioFile list \<Rightarrow> state
    \<Rightarrow> (error + AudioFile list) \<times> state" where
  "run_operations e ex i [] current_files st = (Inr current_files, st)"
| "run_operations e ex i (operation # rest) current_files st =
     (case execute_operation e ex operation current_files (operation_name i operation) st of
        (Inl err, st1) \<Rightarrow> (Inl err, st1)
      | (Inr outs, st1) \<Rightarrow> run_operations e ex (i + 1) rest outs st1)"

fun convert_all ::
  "env \<Rightarrow> executor \<Rightarrow> FileFormat \<Rightarrow> AudioFile list \<Rightarrow> state
    \<Rightarrow> (error + AudioFile list) \<times> state" where
  "convert_all e ex fmt [] st = (Inr [], st)"
| "convert_all e ex fmt (f # fs) st =
     (case (if fmt = WAV then convert_to_wav e ex f st else convert_to_ana e ex f st) of
        (Inl err, st1) \<Rightarrow> (Inl err, st1)
      | (Inr f', st1) \<Rightarrow>
          (case convert_all e ex fmt fs st1 of
             (Inl err, st2) \<Rightarrow> (Inl err, st2)
           | (Inr fs', st2) \<Rightarrow> (Inr (f' # fs'), st2)))"

text \<open>\<^verbatim>\<open>next((f for f in current_files if f.channel_index == i), default)\<close>.\<close>

definition first_with_channel :: "int \<Rightarrow> AudioFile list \<Rightarrow> AudioFile \<Rightarrow> AudioFile" where
  "first_with_channel i fs dflt =
     (case filter (\<lambda>f. channel_index f = Some i) fs of [] \<Rightarrow> dflt | f # rest \<Rightarrow> f)"

definition copy_result ::
  "AudioFile \<Rightarrow> string \<Rightarrow> state \<Rightarrow> (error + AudioFile) \<times> state" where
  "copy_result result output_path st =
     (case copy_file (path result) output_path st of
        (Inl err, st1) \<Rightarrow> (Inl err, st1)
      | (Inr u, st1) \<Rightarrow> (Inr (result\<lparr>path := output_path\<rparr>), st1))"

text \<open>The channel configuration of the output, the last step of \<^verbatim>\<open>Pipeline.run\<close>.\<close>

definition finalize_channels ::
  "env \<Rightarrow> executor \<Rightarrow> AudioFile list \<Rightarrow> bool \<Rightarrow> ChannelMode option \<Rightarrow> string \<Rightarrow> state
    \<Rightarrow> (error + AudioFile) \<times> state" where
  "finalize_channels e ex current_files input_is_stereo output_channels output_path st =
     (if output_channels = Some STEREO \<or> (output_channels = None \<and> input_is_stereo) then
        (case current_files of
           [f0, f1] \<Rightarrow>
             (let left = first_with_channel 1 current_files f0;
                  right = first_with_channel 2 current_files f1
              in case (if \<not> is_wav left then convert_to_wav e ex left st
                       else (Inr left, st)) of
                   (Inl err, st1) \<Rightarrow> (Inl err, st1)
                 | (Inr left', st1) \<Rightarrow>
                     (case (if \<not> is_wav right then convert_to_wav e ex right st1
                            else (Inr right, st1)) of
                        (Inl err, st2) \<Rightarrow> (Inl err, st2)
                      | (Inr right', st2) \<Rightarrow> merge_stereo e left' right' output_path st2))
         | [f0] \<Rightarrow>
             (if is_stereo f0 then copy_result f0 output_path st
              else (Inl (ValueError ''Cannot create stereo output''), st))
         | _ \<Rightarrow> (Inl (ValueError ''Cannot create stereo output''), st))
      else
        (case current_files of
           [f0] \<Rightarrow> copy_result f0 output_path st
         | _ \<Rightarrow> (Inl (ValueError ''Pipeline produced several outputs''), st)))"

text \<open>The body of the \<^verbatim>\<open>with\<close> statement of \<^verbatim>\<open>Pipeline.run\<close>.\<close>

definition run_body ::
  "env \<Rightarrow> executor \<Rightarrow> CDPOperation list \<Rightarrow> string list \<Rightarrow> string \<Rightarrow> ChannelMode option
    \<Rightarrow> FileFormat \<Rightarrow> state \<Rightarrow> (error + AudioFile) \<times> state" where
  "run_body e ex operations input_files output_path output_channels output_format' st =
     (case load_inputs e input_files [] st of
        (Inl err, st1) \<Rightarrow> (Inl err, st1)
      | (Inr audio_files, st1) \<Rightarrow>
          (let input_is_stereo = list_ex is_stereo audio_files
           in case run_operations e ex 0 operations audio_files st1 of
                (Inl err, st2) \<Rightarrow> (Inl err, st2)
              | (Inr current_files, st2) \<Rightarrow>
                  (case convert_all e ex output_format' current_files st2 of
                     (Inl err, st3) \<Rightarrow> (Inl err, st3)
                   | (Inr converted, st3) \<Rightarrow>
                       finalize_channels e ex converted input_is_stereo output_channels
                         output_path st3)))"

text \<open>
  \<^verbatim>\<open>Pipeline.run\<close>. The overwrite step comes before the executor exists; the \<^verbatim>\<open>with\<close>
  statement calls \<^verbatim>\<open>cleanup\<close> when its body returns and when its body raises.
\<close>

definition overwrite_step :: "bool \<Rightarrow> string \<Rightarrow> state \<Rightarrow> (error + unit) \<times> state" where
  "overwrite_step overwrite output_path st =
     (if overwrite \<and> path_exists st output_path then unlink output_path st
      else (Inr (), st))"

definition run ::
  "env \<Rightarrow> CDPOperation list \<Rightarrow> string list \<Rightarrow> string \<Rightarrow> string option \<Rightarrow> bool
    \<Rightarrow> ChannelMode option \<Rightarrow> FileFormat option \<Rightarrow> bool \<Rightarrow> state
    \<Rightarrow> (error + AudioFile) \<times> state" where
  "run e operations input_files output_path temp_dir' keep_temp' output_channels
       output_format' overwrite st =
     (let fmt = (case output_format' of None \<Rightarrow> WAV | Some f \<Rightarrow> f)
      in case overwrite_step overwrite output_path st of
           (Inl err, st1) \<Rightarrow> (Inl err, st1)
         | (Inr u, st1) \<Rightarrow>
             (let (ex, st2) = PipelineExecutor_init e temp_dir' keep_temp' st1;
                  (r, st3) = run_body e ex operations input_files output_path
                               output_channels fmt st2
              in (r, cleanup ex st3)))"

subsection \<open>What a step of the executor may change\<close>

text \<open>
  The paths the executor writes while it works: those inside its scratch directory, and,
  because \<^verbatim>\<open>temp_dir / name\<close> is \<open>name\<close> itself for an absolute \<open>name\<close>, those that
  begin with an operation name that begins with a slash.
\<close>

definition scratch_target :: "executor \<Rightarrow> string list \<Rightarrow> string \<Rightarrow> bool" where
  "scratch_target ex names p =
     (in_dir (temp_dir ex) p \<or>
      list_ex (\<lambda>n. starts_with ''/'' n \<and> starts_with n p) names)"

text \<open>
  \<open>step W E st st'\<close>: from \<open>st\<close> to \<open>st'\<close> no directory was made or removed, the counter
  did not decrease, only files at paths in \<open>W\<close> were written, and the effects added to
  the trace all satisfy \<open>E\<close>.
\<close>

definition step :: "(string \<Rightarrow> bool) \<Rightarrow> (event \<Rightarrow> bool) \<Rightarrow> state \<Rightarrow> state \<Rightarrow> bool" where
  "step W E st st' =
     (dirs st' = dirs st \<and> counter st \<le> counter st' \<and>
      (\<forall>p. \<not> W p \<longrightarrow> files st' p = files st p) \<and>
      (\<exists>evs. trace st' = trace st @ evs \<and> list_all E evs))"

fun is_split_event :: "event \<Rightarrow> bool" where
  "is_split_event (Copy src dst) = True"
| "is_split_event (Sh prog args) = (prog = ''housekeep'')"
| "is_split_event ev = False"

fun is_convert_event :: "event \<Rightarrow> bool" where
  "is_convert_event (Sh prog args) = (prog = ''pvoc'')"
| "is_convert_event ev = False"

fun is_materialize_event :: "event \<Rightarrow> bool" where
  "is_materialize_event (Sh prog args) = (prog = ''sndinfo'')"
| "is_materialize_event (Warn t d) = True"
| "is_materialize_event (WriteText p c) = True"
| "is_materialize_event ev = False"

fun is_cdp_event :: "event \<Rightarrow> bool" where
  "is_cdp_event (Cdp prog args) = True"
| "is_cdp_event ev = False"

subsection \<open>The rules of negotiation, as the specification words them\<close>



definition converted :: "FileFormat \<Rightarrow> AudioFile \<Rightarrow> AudioFile \<Rightarrow> bool" where
  "converted rf f g =
     (if format f = rf then g = f
      else format g = rf \<and> channels g = channels f \<and> channel_index g = channel_index f)"

subsection \<open>Materialization, as the specification words it\<close>

text \<open>
  The scratch file name made from a base name and a counter value, and the number a
  string of decimal digits denotes.
\<close>

definition temp_file_path :: "executor \<Rightarrow> string \<Rightarrow> nat \<Rightarrow> string \<Rightarrow> string" where
  "temp_file_path ex base_name c extension =
     path_join (temp_dir ex) (base_name @ ''_'' @ zero_pad 4 (str_nat c) @ ''.'' @ extension)"

definition digits_value :: "string \<Rightarrow> nat" where
  "digits_value s = foldl (\<lambda>a ch. 10 * a + (of_char ch - 48)) 0 s"

definition counter_digits :: "string \<Rightarrow> string" where
  "counter_digits p = rev (takeWhile (\<lambda>ch. ch \<noteq> CHR ''_'') (drop 4 (rev p)))"

text \<open>
  \<open>materialized e ex nm d st st' k p p'\<close>: what became of the parameter \<open>p\<close> at index
  \<open>k\<close> of the operation named \<open>nm\<close>, between the states \<open>st\<close> and \<open>st'\<close>. A scalar is
  passed through. A curve is replaced by the path of a scratch file named with a counter
  value taken in between; the curve resolved against the duration \<open>d\<close> was written to
  that file, and the file still holds it in \<open>st'\<close>.
\<close>

definition materialized ::
  "env \<Rightarrow> executor \<Rightarrow> string \<Rightarrow> rat \<Rightarrow> state \<Rightarrow> state \<Rightarrow> nat \<Rightarrow> param \<Rightarrow> param \<Rightarrow> bool" where
  "materialized e ex nm d st st' k p p' =
     (case p of
        Curve bp \<Rightarrow>
          (\<exists>c pts ws.
             counter st < c \<and> c \<le> counter st' \<and>
             p' = StrParam (temp_file_path ex (nm @ ''_param'' @ str_nat k) c ''txt'') \<and>
             to_absolute_times e bp d = Inr (pts, ws) \<and>
             WriteText (temp_file_path ex (nm @ ''_param'' @ str_nat k) c ''txt'') pts
               \<in> set (drop (length (trace st)) (trace st')) \<and>
             files st' (temp_file_path ex (nm @ ''_param'' @ str_nat k) c ''txt'')
               = Some (Text pts))
      | _ \<Rightarrow> p' = p)"

fun is_external_call :: "event \<Rightarrow> bool" where
  "is_external_call (Sh prog args) = True"
| "is_external_call (Cdp prog args) = True"
| "is_external_call ev = False"

subsection \<open>Probing and grouping, as the code does them\<close>


definition grouped :: "AudioFile list \<Rightarrow> (int option \<times> AudioFile list) list \<Rightarrow> bool" where
  "grouped seen groups =
     (distinct (map fst groups) \<and>
      (\<forall>k. map_of groups k =
             (if k \<in> channel_index ` set seen
              then Some (filter (\<lambda>f. channel_index f = k) seen) else None)))"

text \<open>
  \<open>invoked op g out ev\<close>: the effect \<open>ev\<close> is one run of the program of \<open>op\<close>, on the
  inputs of the group \<open>g\<close> (all of them for a multi-input operation, the first
  otherwise), writing the descriptor \<open>out\<close>.
\<close>

definition invoked :: "CDPOperation \<Rightarrow> AudioFile list \<Rightarrow> AudioFile \<Rightarrow> event \<Rightarrow> bool" where
  "invoked op g out ev =
     (\<exists>args. ev = Cdp (program op) args \<and> path out \<in> set args \<and>
        (if multi_input op then set (map path g) \<subseteq> set args
         else g \<noteq> [] \<and> path (hd g) \<in> set args))"

subsection \<open>Concrete scenarios\<close>

text \<open>
  An environment in which every external call succeeds, every WAV file is stereo and
  lasts two seconds, and the curves and operations of the scenarios of the specification.
\<close>

definition env0 :: env where
  "env0 =
     \<lparr>float_of_str = (\<lambda>s. if s = ''0'' then Some 0 else if s = ''50'' then Some 50
                            else if s = ''99'' then Some 99 else None),
      str_of_float = (\<lambda>r. if r = 2 then ''2.0'' else ''1.0''),
      sh_ok = (\<lambda>tr prog args. True),
      sfprops_c = (\<lambda>tr p. Some 2),
      sndinfo_duration = (\<lambda>tr p. Some 2),
      mkdtemp = (\<lambda>tr. ''/tmp/tmpx'')\<rparr>"

definition curve_A :: Breakpoint where
  "curve_A =
     \<lparr>points = [\<lparr>time = Str ''0%'', val = 5\<rparr>, \<lparr>time = Str ''50%'', val = 10\<rparr>,
                \<lparr>time = Str ''99%'', val = 2\<rparr>],
      bp_name = None\<rparr>"

definition curve_B :: Breakpoint where
  "curve_B =
     \<lparr>points = [\<lparr>time = Str ''99%'', val = 2\<rparr>, \<lparr>time = Str ''0%'', val = 5\<rparr>,
                \<lparr>time = Str ''50%'', val = 10\<rparr>],
      bp_name = None\<rparr>"

definition curve_late :: Breakpoint where
  "curve_late =
     \<lparr>points = [\<lparr>time = Num 0, val = 0\<rparr>, \<lparr>time = Num (1 / 2), val = 1\<rparr>,
                \<lparr>time = Str ''50%'', val = 1 / 2\<rparr>],
      bp_name = None\<rparr>"

definition ex0 :: executor where
  "ex0 = \<lparr>temp_dir = ''tmp'', keep_temp = True, temp_dir_obj = False\<rparr>"

definition st_in :: state where
  "st_in =
     \<lparr>files = [''in.wav'' \<mapsto> Audio, ''in.ana'' \<mapsto> Audio, ''out.wav'' \<mapsto> Audio],
      dirs = {''tmp''}, counter = 0, trace = []\<rparr>"


definition tagged_ana :: "string \<Rightarrow> int \<Rightarrow> AudioFile" where
  "tagged_ana p i = \<lparr>path = p, format = ANA, channels = MONO, channel_index = Some i\<rparr>"

definition mono_ana :: "string \<Rightarrow> AudioFile" where
  "mono_ana p = \<lparr>path = p, format = ANA, channels = MONO, channel_index = None\<rparr>"

definition blur_op :: CDPOperation where
  "blur_op =
     \<lparr>name = ''blur_2.0'', program = ''blur'', subcommand = Some ''blur'', mode = None,
      input_requirements = \<lparr>req_format = ANA, req_channels = MONO\<rparr>,
      output_format = ANA, params = [FloatParam 2], multi_input = False\<rparr>"

definition curve_op :: CDPOperation where
  "curve_op =
     \<lparr>name = ''blur_curve'', program = ''blur'', subcommand = Some ''blur'', mode = None,
      input_requirements = \<lparr>req_format = ANA, req_channels = MONO\<rparr>,
      output_format = ANA, params = [Curve curve_B, FloatParam 2], multi_input = False\<rparr>"



definition interleave_op :: CDPOperation where
  "interleave_op =
     \<lparr>name = ''combine_interleave_1'', program = ''combine'',
      subcommand = Some ''interleave'', mode = None,
      input_requirements = \<lparr>req_format = ANA, req_channels = MONO\<rparr>,
      output_format = ANA, params = [IntParam 1], multi_input = True\<rparr>"

section \<open>Resolving a curve\<close>

lemma get_absolute_time_spec:
  "get_absolute_time e p D =
     (case spec_absolute_time e D (time p) of
        None \<Rightarrow> Inl (ValueError ''could not convert string to float'')
      | Some t \<Rightarrow> Inr t)"
  by (simp add: get_absolute_time_def spec_absolute_time_def
      split: time_spec.splits option.splits)

lemma spec_absolute_time_None_iff:
  "(spec_absolute_time e D ts = None) = (spec_absolute_time e D' ts = None)"
  by (simp add: spec_absolute_time_def split: time_spec.splits)

lemma well_formed_time_Some:
  "well_formed_time e ts \<Longrightarrow> spec_absolute_time e D ts \<noteq> None"
  by (simp add: well_formed_time_def spec_absolute_time_None_iff [of e D ts 0])

lemma well_formed_time_Num: "well_formed_time e (Num t)"
  by (simp add: well_formed_time_def spec_absolute_time_def)

lemma well_formed_time_Str:
  "well_formed_time e (Str s) =
     (if ends_with_percent s then float_of_str e (rstrip_percent s) \<noteq> None
      else float_of_str e s \<noteq> None)"
  by (simp add: well_formed_time_def spec_absolute_time_def del: not_None_eq)

text \<open>On a curve whose time strings are numbers the first loop never raises.\<close>

lemma to_absolute_loop_well_formed:
  assumes "\<forall>p \<in> set ps. well_formed_time e (time p)"
  shows "to_absolute_loop e D ps result orig =
           Inr (result @ map (\<lambda>p. (the (spec_absolute_time e D (time p)), val p)) ps,
                orig @ map (\<lambda>p. (the (spec_absolute_time e D (time p)), time p)) ps)"
  using assms
proof (induction ps arbitrary: result orig)
  case Nil
  then show ?case by simp
next
  case (Cons p ps)
  from Cons.prems obtain t where t: "spec_absolute_time e D (time p) = Some t"
    using well_formed_time_Some [of e "time p" D] by auto
  from Cons.prems have rest: "\<forall>q \<in> set ps. well_formed_time e (time q)" by simp
  show ?case
    by (simp add: get_absolute_time_spec t Cons.IH [OF rest])
qed

lemma to_absolute_times_well_formed:
  assumes "\<forall>p \<in> set (points bp). well_formed_time e (time p)"
  shows "to_absolute_times e bp D =
           Inr (sort_key fst
                  (map (\<lambda>p. (the (spec_absolute_time e D (time p)), val p)) (points bp)),
                warn_loop D
                  (map (\<lambda>p. (the (spec_absolute_time e D (time p)), time p)) (points bp)))"
  by (simp add: to_absolute_times_def to_absolute_loop_well_formed [OF assms])

lemma resolved_points_rel:
  assumes "\<forall>p \<in> set ps. well_formed_time e (time p)"
  shows "list_all2 (\<lambda>p x. spec_absolute_time e D (time p) = Some (fst x) \<and> snd x = val p)
           ps (map (\<lambda>p. (the (spec_absolute_time e D (time p)), val p)) ps)"
  using assms
proof (induction ps)
  case Nil
  then show ?case by simp
next
  case (Cons p ps)
  from Cons.prems obtain t where "spec_absolute_time e D (time p) = Some t"
    using well_formed_time_Some [of e "time p" D] by auto
  with Cons show ?case by simp
qed

text \<open>
  C3. Resolving a curve against a duration \<open>D\<close> never raises on a curve whose time
  strings are numbers. The result is the stable sort, by time, of the points taken in
  insertion order, where a percentage \<open>P\<close> has become \<open>D * P / 100\<close>, an absolute time
  is itself and every value is unchanged; so it is sorted ascending by time and holds
  the same points, whatever the insertion order was.
\<close>

theorem to_absolute_times_resolved:
  assumes "\<forall>p \<in> set (points bp). well_formed_time e (time p)"
  shows "\<exists>result warns unsorted.
           to_absolute_times e bp D = Inr (result, warns) \<and>
           list_all2 (\<lambda>p x. spec_absolute_time e D (time p) = Some (fst x) \<and> snd x = val p)
             (points bp) unsorted \<and>
           (\<forall>p t. time p = Num t \<longrightarrow> spec_absolute_time e D (time p) = Some t) \<and>
           (\<forall>p s P. time p = Str s \<and> ends_with_percent s \<and>
                    float_of_str e (rstrip_percent s) = Some P
                    \<longrightarrow> spec_absolute_time e D (time p) = Some (D * P / 100)) \<and>
           result = sort_key fst unsorted \<and>
           mset result = mset unsorted \<and>
           sorted (map fst result)"
proof -
  let ?unsorted = "map (\<lambda>p. (the (spec_absolute_time e D (time p)), val p)) (points bp)"
  have "to_absolute_times e bp D =
          Inr (sort_key fst ?unsorted,
               warn_loop D
                 (map (\<lambda>p. (the (spec_absolute_time e D (time p)), time p)) (points bp)))"
    by (rule to_absolute_times_well_formed [OF assms])
  moreover have "list_all2
      (\<lambda>p x. spec_absolute_time e D (time p) = Some (fst x) \<and> snd x = val p)
      (points bp) ?unsorted"
    by (rule resolved_points_rel [OF assms])
  moreover have "\<forall>p t. time p = Num t \<longrightarrow> spec_absolute_time e D (time p) = Some t"
    by (simp add: spec_absolute_time_def)
  moreover have "\<forall>p s P. time p = Str s \<and> ends_with_percent s \<and>
                    float_of_str e (rstrip_percent s) = Some P
                    \<longrightarrow> spec_absolute_time e D (time p) = Some (D * P / 100)"
    by (simp add: spec_absolute_time_def)
  moreover have "mset (sort_key fst ?unsorted) = mset ?unsorted"
    by simp
  moreover have "sorted (map fst (sort_key fst ?unsorted))"
    by (rule sorted_sort_key)
  ultimately show ?thesis by blast
qed

theorem to_absolute_times_resolved_witness:
  "list_all (\<lambda>p. well_formed_time env0 (time p)) (points curve_B) \<and>
   to_absolute_times env0 curve_B 2 = Inr ([(0, 5), (1, 10), (99 / 50, 2)], []) \<and>
   (\<exists>result warns unsorted.
      to_absolute_times env0 curve_B 2 = Inr (result, warns) \<and>
      list_all2
        (\<lambda>p x. spec_absolute_time env0 2 (time p) = Some (fst x) \<and> snd x = val p)
        (points curve_B) unsorted \<and>
      result = sort_key fst unsorted \<and> sorted (map fst result))"
proof -
  have wf: "\<forall>p \<in> set (points curve_B). well_formed_time env0 (time p)"
    by (simp add: curve_B_def env0_def well_formed_time_Str
        ends_with_percent_def rstrip_percent_def)
  have run: "to_absolute_times env0 curve_B 2 = Inr ([(0, 5), (1, 10), (99 / 50, 2)], [])"
    by (simp add: to_absolute_times_def env0_def curve_B_def get_absolute_time_def
        ends_with_percent_def rstrip_percent_def)
  from wf have "list_all (\<lambda>p. well_formed_time env0 (time p)) (points curve_B)"
    by (simp only: list_all_iff)
  with to_absolute_times_resolved [OF wf, of 2] run show ?thesis by blast
qed

text \<open>Scenarios A and B: the same points in two insertion orders resolve alike.\<close>

lemma to_absolute_times_scenarios_A_B:
  "to_absolute_times env0 curve_A 2 = Inr ([(0, 5), (1, 10), (99 / 50, 2)], [])"
  "to_absolute_times env0 curve_B 2 = to_absolute_times env0 curve_A 2"
  by (simp_all add: to_absolute_times_def env0_def curve_A_def curve_B_def
      get_absolute_time_def ends_with_percent_def rstrip_percent_def)

section \<open>Diagnostics of a resolution\<close>

lemma warn_loop_points:
  "warn_loop D (map (\<lambda>p. (the (spec_absolute_time e D (time p)), time p)) ps) =
     concat (map (point_diagnostics D) ps)"
  by (induction ps)
    (auto simp: point_diagnostics_def spec_absolute_time_def split: time_spec.splits)

lemma length_concat_point_diagnostics:
  "length (concat (map (point_diagnostics D) ps)) =
     length (filter (\<lambda>p. \<exists>t. time p = Num t \<and> t > D) ps)"
  by (induction ps) (auto simp: point_diagnostics_def split: time_spec.splits)

lemma set_concat_point_diagnostics:
  "(w \<in> set (concat (map (point_diagnostics D) ps))) =
     (\<exists>p \<in> set ps. \<exists>t. time p = Num t \<and> t > D \<and> w = BeyondDuration t D)"
  by (induction ps) (auto simp: point_diagnostics_def split: time_spec.splits)

text \<open>
  C4. Resolving a curve (whose time strings are numbers) against a duration \<open>D\<close>: the
  diagnostics are, point by point in insertion order, exactly one \<open>BeyondDuration t D\<close>
  for each point whose time is the number \<open>t\<close> with \<open>t > D\<close>, and none for any other
  point, in particular none for a percentage. Such a point is kept in the result, which
  has as many points as the curve.
\<close>

theorem to_absolute_times_diagnostics:
  assumes "\<forall>p \<in> set (points bp). well_formed_time e (time p)"
  shows "\<exists>result warns.
           to_absolute_times e bp D = Inr (result, warns) \<and>
           warns = concat (map (point_diagnostics D) (points bp)) \<and>
           (\<forall>p t. time p = Num t \<and> t > D \<longrightarrow> point_diagnostics D p = [BeyondDuration t D]) \<and>
           (\<forall>p s. time p = Str s \<longrightarrow> point_diagnostics D p = []) \<and>
           (\<forall>p t. time p = Num t \<and> \<not> t > D \<longrightarrow> point_diagnostics D p = []) \<and>
           length warns = length (filter (\<lambda>p. \<exists>t. time p = Num t \<and> t > D) (points bp)) \<and>
           length result = length (points bp) \<and>
           (\<forall>p \<in> set (points bp). \<forall>t. time p = Num t \<and> t > D
              \<longrightarrow> (t, val p) \<in> set result)"
proof -
  let ?unsorted = "map (\<lambda>p. (the (spec_absolute_time e D (time p)), val p)) (points bp)"
  let ?warns = "concat (map (point_diagnostics D) (points bp))"
  have run: "to_absolute_times e bp D = Inr (sort_key fst ?unsorted, ?warns)"
    by (simp add: to_absolute_times_well_formed [OF assms] warn_loop_points)
  have kept: "\<forall>p \<in> set (points bp). \<forall>t. time p = Num t \<and> t > D
                \<longrightarrow> (t, val p) \<in> set (sort_key fst ?unsorted)"
  proof (intro ballI allI impI)
    fix p t
    assume p: "p \<in> set (points bp)" and t: "time p = Num t \<and> t > D"
    then have "the (spec_absolute_time e D (time p)) = t"
      by (simp add: spec_absolute_time_def)
    with p have "(t, val p) \<in> set ?unsorted" by force
    then show "(t, val p) \<in> set (sort_key fst ?unsorted)" by simp
  qed
  have d1: "\<forall>p t. time p = Num t \<and> t > D \<longrightarrow> point_diagnostics D p = [BeyondDuration t D]"
    by (simp add: point_diagnostics_def)
  have d2: "\<forall>p s. time p = Str s \<longrightarrow> point_diagnostics D p = []"
    by (simp add: point_diagnostics_def)
  have d3: "\<forall>p t. time p = Num t \<and> \<not> t > D \<longrightarrow> point_diagnostics D p = []"
    by (simp add: point_diagnostics_def)
  have len: "length (sort_key fst ?unsorted) = length (points bp)" by simp
  from run kept d1 d2 d3 len length_concat_point_diagnostics [of D "points bp"]
  show ?thesis by blast
qed

theorem to_absolute_times_diagnostics_witness:
  "list_all (\<lambda>p. well_formed_time env0 (time p)) (points curve_late) \<and>
   to_absolute_times env0 curve_late (3 / 10) =
     Inr ([(0, 0), (3 / 20, 1 / 2), (1 / 2, 1)], [BeyondDuration (1 / 2) (3 / 10)]) \<and>
   (\<exists>result warns.
      to_absolute_times env0 curve_late (3 / 10) = Inr (result, warns) \<and>
      warns = concat (map (point_diagnostics (3 / 10)) (points curve_late)) \<and>
      length result = length (points curve_late))"
proof -
  have wf: "\<forall>p \<in> set (points curve_late). well_formed_time env0 (time p)"
    by (simp add: curve_late_def env0_def well_formed_time_Num well_formed_time_Str
        ends_with_percent_def rstrip_percent_def)
  have run: "to_absolute_times env0 curve_late (3 / 10) =
               Inr ([(0, 0), (3 / 20, 1 / 2), (1 / 2, 1)], [BeyondDuration (1 / 2) (3 / 10)])"
    by (simp add: to_absolute_times_def env0_def curve_late_def get_absolute_time_def
        ends_with_percent_def rstrip_percent_def)
  from wf have "list_all (\<lambda>p. well_formed_time env0 (time p)) (points curve_late)"
    by (simp only: list_all_iff)
  with to_absolute_times_diagnostics [OF wf, of "3 / 10"] run show ?thesis by blast
qed

section \<open>The command grammar\<close>

text \<open>
  C5. The argument list built for an operation is the subcommand if there is one (a
  non-empty string), then the mode value if there is one, then the input paths (all of
  them, in the order given, for a multi-input operation; the first one otherwise), then
  the output path, then the parameters in declared order. A single-input operation
  needs an input: on an empty list \<^verbatim>\<open>input_files[0]\<close> raises.
\<close>

theorem get_command_args_grammar:
  assumes "multi_input op \<or> input_files \<noteq> []"
  shows "get_command_args e op input_files output_file =
           Inr ((case subcommand op of
                   None \<Rightarrow> []
                 | Some s \<Rightarrow> (if s = [] then [] else [s]))
                @ (case mode op of None \<Rightarrow> [] | Some m \<Rightarrow> [str_mode m])
                @ (if multi_input op then map path input_files
                   else [path (hd input_files)])
                @ [path output_file]
                @ map (str_param e) (params op))"
  using assms
  by (cases input_files)
    (simp_all add: get_command_args_def Let_def split: option.splits)

theorem get_command_args_grammar_witness:
  "(multi_input interleave_op \<or> [mono_ana ''a.ana'', mono_ana ''b.ana'', mono_ana ''c.ana''] \<noteq> []) \<and>
   get_command_args env0 interleave_op
     [mono_ana ''a.ana'', mono_ana ''b.ana'', mono_ana ''c.ana''] (mono_ana ''out.ana'') =
     Inr [''interleave'', ''a.ana'', ''b.ana'', ''c.ana'', ''out.ana'', ''1'']"
  using get_command_args_grammar [of interleave_op
      "[mono_ana ''a.ana'', mono_ana ''b.ana'', mono_ana ''c.ana'']" env0 "mono_ana ''out.ana''"]
  by (simp add: interleave_op_def mono_ana_def str_int_def str_nat.simps digit_char_def)

lemma get_command_args_empty_single:
  "\<not> multi_input op \<Longrightarrow> get_command_args e op [] output_file = Inl IndexError"
  by (simp add: get_command_args_def Let_def split: option.splits)

lemma get_command_args_scenario_C:
  "get_command_args env0 blur_op [mono_ana ''input.ana''] (mono_ana ''output.ana'') =
     Inr [''blur'', ''input.ana'', ''output.ana'', ''2.0'']"
  by (simp add: get_command_args_def blur_op_def mono_ana_def env0_def)

section \<open>Paths\<close>

lemma starts_with_append [simp]: "starts_with p (p @ s)"
  by (induction p) auto

lemma starts_with_append2: "starts_with p s \<Longrightarrow> starts_with p (s @ t)"
  by (induction p s rule: starts_with.induct) auto

lemma starts_with_slash_set: "starts_with ''/'' s \<Longrightarrow> CHR ''/'' \<in> set s"
  by (cases s) auto

lemma no_slash_path_name: "CHR ''/'' \<notin> set (path_name p)"
  by (auto simp: path_name_def dest: set_takeWhileD)

lemma no_slash_path_stem: "CHR ''/'' \<notin> set (path_stem p)"
  using no_slash_path_name [of p]
  by (auto simp: path_stem_def Let_def dest: in_set_takeD)

lemma no_slash_str_replace:
  "CHR ''/'' \<notin> set new \<Longrightarrow> CHR ''/'' \<notin> set s \<Longrightarrow> CHR ''/'' \<notin> set (str_replace old new s)"
  by (induction old new s rule: str_replace.induct) (auto dest: in_set_dropD)

lemma path_join_no_slash: "CHR ''/'' \<notin> set n \<Longrightarrow> path_join d n = d @ ''/'' @ n"
  using starts_with_slash_set [of n] by (auto simp: path_join_def)

lemma in_dir_join [simp]: "in_dir d (d @ CHR ''/'' # n)"
proof -
  have "starts_with (d @ ''/'') ((d @ ''/'') @ n)" by (rule starts_with_append)
  then show ?thesis by (simp add: in_dir_def)
qed

lemma path_parent_join:
  assumes "CHR ''/'' \<notin> set n"
  shows "path_parent (d @ ''/'' @ n) = (if d = [] then ''/'' else d)"
proof -
  have "dropWhile (\<lambda>c. c \<noteq> CHR ''/'') (rev n @ CHR ''/'' # rev d) = CHR ''/'' # rev d"
    using assms by (auto simp: dropWhile_append3)
  then show ?thesis by (simp add: path_parent_def Let_def)
qed

lemma path_name_join:
  assumes "CHR ''/'' \<notin> set n"
  shows "path_name (d @ ''/'' @ n) = n"
proof -
  have "takeWhile (\<lambda>c. c \<noteq> CHR ''/'') (rev n @ CHR ''/'' # rev d) = rev n"
    using assms by (auto simp: takeWhile_tail)
  then show ?thesis by (simp add: path_name_def)
qed

lemma no_slash_str_nat: "CHR ''/'' \<notin> set (str_nat n)"
proof (induction n rule: str_nat.induct)
  case (1 n)
  have d: "\<And>k. k < 10 \<Longrightarrow> digit_char k \<noteq> CHR ''/''"
  proof -
    fix k :: nat assume "k < 10"
    then have "k \<in> {0,1,2,3,4,5,6,7,8,9}" by auto
    then show "digit_char k \<noteq> CHR ''/''" by (auto simp: digit_char_def)
  qed
  show ?case
  proof (cases "n < 10")
    case True
    then show ?thesis using d [of n] by (subst str_nat.simps) simp
  next
    case False
    then show ?thesis using 1 d [of "n mod 10"] by (subst str_nat.simps) simp
  qed
qed

lemma in_dir_channel_path:
  "in_dir d (channel_path (path_join d (path_name p)) i)"
proof -
  let ?n = "path_name p"
  let ?n' = "str_replace ''.wav'' (''_c'' @ str_nat i @ ''.wav'') ?n"
  have n: "CHR ''/'' \<notin> set ?n" by (rule no_slash_path_name)
  have "CHR ''/'' \<notin> set (''_c'' @ str_nat i @ ''.wav'')"
    using no_slash_str_nat [of i] by simp
  then have n': "CHR ''/'' \<notin> set ?n'" using n by (rule no_slash_str_replace)
  have eq: "channel_path (path_join d ?n) i = (if d = [] then ''/'' else d) @ ''/'' @ ?n'"
    by (simp add: channel_path_def path_join_no_slash [OF n] path_parent_join [OF n]
        path_name_join [OF n] path_join_no_slash [OF n'] del: append.simps)
  show ?thesis
  proof (cases "d = []")
    case True
    have "in_dir [] ([] @ CHR ''/'' # (''/'' @ ?n'))" by (rule in_dir_join)
    with eq True show ?thesis by simp
  next
    case False
    with eq show ?thesis by simp
  qed
qed

section \<open>Steps of the executor\<close>

lemma step_refl: "step W E st st"
  by (simp add: step_def)

lemma step_trans: "step W E a b \<Longrightarrow> step W E b c \<Longrightarrow> step W E a c"
  by (auto simp: step_def)

lemma step_mono:
  "step W E a b \<Longrightarrow> (\<And>p. W p \<Longrightarrow> W' p) \<Longrightarrow> (\<And>ev. E ev \<Longrightarrow> E' ev) \<Longrightarrow> step W' E' a b"
  unfolding step_def by (metis (mono_tags, lifting) list_all_iff)

lemma step_any: "step W E a b \<Longrightarrow> step W (\<lambda>ev. True) a b"
  by (erule step_mono) simp_all

lemma step_log: "E ev \<Longrightarrow> step W E st (log ev st)"
  by (simp add: step_def log_def)

lemma step_create_files: "list_all W outs \<Longrightarrow> step W E st (create_files outs st)"
proof (induction outs arbitrary: st)
  case Nil
  then show ?case by (simp add: step_refl)
next
  case (Cons p ps)
  have "step W E st (st\<lparr>files := (files st)(p \<mapsto> Audio)\<rparr>)"
    using Cons.prems by (auto simp: step_def)
  moreover have "step W E (st\<lparr>files := (files st)(p \<mapsto> Audio)\<rparr>)
                   (create_files ps (st\<lparr>files := (files st)(p \<mapsto> Audio)\<rparr>))"
    using Cons.prems by (intro Cons.IH) simp
  ultimately show ?case by (simp add: step_trans)
qed

lemma step_sh_run:
  assumes "sh_run e prog args outs st = (r, st')" and "E (Sh prog args)" and "list_all W outs"
  shows "step W E st st'"
proof (cases "sh_ok e (trace st) prog args")
  case True
  with assms(1) have "st' = create_files outs (log (Sh prog args) st)"
    by (simp add: sh_run_def)
  then show ?thesis
    using step_log [of E "Sh prog args" W st] assms(2) step_create_files [OF assms(3)]
      step_trans by blast
next
  case False
  with assms(1) have "st' = log (Sh prog args) st" by (simp add: sh_run_def)
  then show ?thesis using step_log [of E "Sh prog args" W st] assms(2) by simp
qed

lemma step_execute_cdp_command:
  assumes "execute_cdp_command e prog args out st = (r, st')" and "W out"
  shows "step W is_cdp_event st st'"
proof (cases "sh_ok e (trace st) prog args")
  case True
  with assms(1) have "st' = create_files [out] (log (Cdp prog args) st)"
    by (simp add: execute_cdp_command_def)
  moreover have "step W is_cdp_event st (log (Cdp prog args) st)" by (simp add: step_log)
  moreover have "step W is_cdp_event (log (Cdp prog args) st)
                   (create_files [out] (log (Cdp prog args) st))"
    using assms(2) by (intro step_create_files) simp
  ultimately show ?thesis using step_trans by blast
next
  case False
  with assms(1) have "st' = log (Cdp prog args) st" by (simp add: execute_cdp_command_def)
  then show ?thesis by (simp add: step_log)
qed

lemma step_copy_file:
  assumes "copy_file src dst st = (r, st')" and "W dst" and "E (Copy src dst)"
  shows "step W E st st'"
  using assms
  by (auto simp: copy_file_def step_def log_def split: option.splits if_splits)

lemma step_next_temp_file: "next_temp_file ex base ext st = (p, st') \<Longrightarrow> step W E st st'"
  by (auto simp: next_temp_file_def Let_def step_def)

lemma starts_with_slash_append:
  "starts_with ''/'' (a @ b) = (if a = [] then starts_with ''/'' b else starts_with ''/'' a)"
  by (cases a) auto

lemma scratch_target_join:
  "\<not> starts_with ''/'' n \<Longrightarrow> scratch_target ex names (path_join (temp_dir ex) n)"
  by (simp add: scratch_target_def path_join_def)

lemma scratch_target_next_temp_file:
  assumes "next_temp_file ex base ext st = (p, st')" and "\<not> starts_with ''/'' base"
  shows "scratch_target ex names p"
proof -
  have "\<not> starts_with ''/'' (base @ ''_'' @ zero_pad 4 (str_nat (counter st + 1)) @ ''.'' @ ext)"
    using assms(2) by (simp add: starts_with_slash_append)
  then show ?thesis
    using assms(1) scratch_target_join by (auto simp: next_temp_file_def Let_def)
qed

lemma scratch_target_param_file:
  assumes "next_temp_file ex (n @ ''_param'' @ s) ext st = (p, st')" and "n \<in> set names"
  shows "scratch_target ex names p"
proof (cases "starts_with ''/'' n")
  case True
  let ?x = "(n @ ''_param'' @ s) @ ''_'' @ zero_pad 4 (str_nat (counter st + 1)) @ ''.'' @ ext"
  from True have n: "n \<noteq> []" by auto
  then have abs: "starts_with ''/'' ?x" using True by (simp add: starts_with_slash_append)
  have "starts_with n (n @ (''_param'' @ s) @ ''_'' @ zero_pad 4 (str_nat (counter st + 1)) @ ''.'' @ ext)"
    by (rule starts_with_append)
  then have pre: "starts_with n ?x" by simp
  from assms(1) abs have "p = ?x" by (auto simp: next_temp_file_def Let_def path_join_def)
  with pre True assms(2) show ?thesis
    by (auto simp: scratch_target_def list_ex_iff)
next
  case False
  then have "\<not> starts_with ''/'' (n @ ''_param'' @ s)" by (simp add: starts_with_slash_append)
  with assms(1) show ?thesis by (rule scratch_target_next_temp_file)
qed

lemma step_log_diagnostics: "step W is_materialize_event st (log_diagnostics ws st)"
proof (induction ws arbitrary: st)
  case Nil
  then show ?case by (simp add: step_refl)
next
  case (Cons w ws)
  obtain t d where w: "w = BeyondDuration t d" by (cases w)
  have "step W is_materialize_event st (log (Warn t d) st)" by (simp add: step_log)
  with Cons.IH [of "log (Warn t d) st"] show ?case by (simp add: w step_trans)
qed

lemma step_write_to_file:
  assumes "write_to_file e bp filepath d st = (r, st')" and "W filepath"
  shows "step W is_materialize_event st st'"
proof (cases "to_absolute_times e bp d")
  case (Inl err)
  with assms(1) show ?thesis by (simp add: write_to_file_def step_refl)
next
  case (Inr pw)
  obtain pts ws where pw: "pw = (pts, ws)" by (cases pw)
  let ?st1 = "log_diagnostics ws st"
  from assms(1) Inr pw have st': "st' = log (WriteText filepath pts)
      (?st1\<lparr>files := (files ?st1)(filepath \<mapsto> Text pts)\<rparr>)"
    by (simp add: write_to_file_def Let_def)
  have "step W is_materialize_event st ?st1" by (rule step_log_diagnostics)
  moreover have "step W is_materialize_event ?st1 st'"
    using assms(2) by (auto simp: st' step_def log_def)
  ultimately show ?thesis by (rule step_trans)
qed

lemma step_write_breakpoint_file:
  assumes "write_breakpoint_file e ex bp d (n @ ''_param'' @ s) st = (r, st')"
    and "n \<in> set names"
  shows "step (scratch_target ex names) is_materialize_event st st'"
proof -
  obtain p st1 where nt: "next_temp_file ex (n @ ''_param'' @ s) ''txt'' st = (p, st1)"
    by (cases "next_temp_file ex (n @ ''_param'' @ s) ''txt'' st")
  with assms(1) have w: "write_to_file e bp p d st1 = (r, st')"
    by (simp add: write_breakpoint_file_def)
  have "step (scratch_target ex names) is_materialize_event st st1"
    using nt by (rule step_next_temp_file)
  moreover have "step (scratch_target ex names) is_materialize_event st1 st'"
    using w scratch_target_param_file [OF nt assms(2)] by (rule step_write_to_file)
  ultimately show ?thesis by (rule step_trans)
qed

lemma step_get_duration:
  "get_duration e f st = (r, st') \<Longrightarrow> step W is_materialize_event st st'"
  by (auto simp: get_duration_def Let_def step_def log_def split: option.splits)

section \<open>Negotiation\<close>

lemma step_split_stereo:
  assumes "split_stereo e ex f st = (r, st')"
  shows "step (scratch_target ex names) is_split_event st st'"
proof (cases "is_stereo f")
  case False
  with assms show ?thesis by (simp add: split_stereo_def step_refl)
next
  case True
  let ?W = "scratch_target ex names"
  let ?ti = "path_join (temp_dir ex) (path_name (path f))"
  have ns: "\<not> starts_with ''/'' (path_name (path f))"
    using starts_with_slash_set no_slash_path_name by blast
  have Wti: "?W ?ti" using ns by (rule scratch_target_join)
  have Wc: "list_all ?W [channel_path ?ti 1, channel_path ?ti 2]"
    by (simp add: scratch_target_def in_dir_channel_path)
  obtain r1 st1 where c: "copy_file (path f) ?ti st = (r1, st1)"
    by (cases "copy_file (path f) ?ti st")
  have s1: "step ?W is_split_event st st1"
    using c Wti by (rule step_copy_file) simp
  show ?thesis
  proof (cases r1)
    case (Inl err)
    with assms True c have "st' = st1" by (simp add: split_stereo_def Let_def)
    with s1 show ?thesis by simp
  next
    case (Inr u)
    obtain r2 st2 where h: "sh_run e ''housekeep'' [''chans'', ''2'', ?ti]
        [channel_path ?ti 1, channel_path ?ti 2] st1 = (r2, st2)"
      by (cases "sh_run e ''housekeep'' [''chans'', ''2'', ?ti]
        [channel_path ?ti 1, channel_path ?ti 2] st1")
    have s2: "step ?W is_split_event st1 st2"
      using h _ Wc by (rule step_sh_run) simp
    from assms True c Inr h have "st' = st2"
      by (cases r2) (simp_all add: split_stereo_def Let_def)
    with s1 s2 show ?thesis using step_trans by blast
  qed
qed



lemma not_wav_ana: "(\<not> is_wav f) = is_ana f"
  by (cases "format f") (simp_all add: is_wav_def is_ana_def)

lemma step_convert_to_ana:
  assumes "convert_to_ana e ex f st = (r, st')"
  shows "step (scratch_target ex names) is_convert_event st st'"
proof (cases "is_wav f")
  case False
  with assms show ?thesis by (simp add: convert_to_ana_def step_refl)
next
  case True
  let ?W = "scratch_target ex names"
  obtain p st1 where nt: "next_temp_file ex (path_stem (path f)) ''ana'' st = (p, st1)"
    by (cases "next_temp_file ex (path_stem (path f)) ''ana'' st")
  have ns: "\<not> starts_with ''/'' (path_stem (path f))"
    using starts_with_slash_set no_slash_path_stem by blast
  have Wp: "?W p" using nt ns by (rule scratch_target_next_temp_file)
  have s1: "step ?W is_convert_event st st1" using nt by (rule step_next_temp_file)
  obtain r2 st2 where h: "sh_run e ''pvoc'' [''anal'', ''1'', path f, p] [p] st1 = (r2, st2)"
    by (cases "sh_run e ''pvoc'' [''anal'', ''1'', path f, p] [p] st1")
  have s2: "step ?W is_convert_event st1 st2"
    using h _ _ by (rule step_sh_run) (simp_all add: Wp)
  from assms True nt h have "st' = st2"
    by (cases r2) (simp_all add: convert_to_ana_def)
  with s1 s2 show ?thesis using step_trans by blast
qed

lemma step_convert_to_wav:
  assumes "convert_to_wav e ex f st = (r, st')"
  shows "step (scratch_target ex names) is_convert_event st st'"
proof (cases "is_ana f")
  case False
  with assms show ?thesis by (simp add: convert_to_wav_def step_refl)
next
  case True
  let ?W = "scratch_target ex names"
  obtain p st1 where nt: "next_temp_file ex (path_stem (path f)) ''wav'' st = (p, st1)"
    by (cases "next_temp_file ex (path_stem (path f)) ''wav'' st")
  have ns: "\<not> starts_with ''/'' (path_stem (path f))"
    using starts_with_slash_set no_slash_path_stem by blast
  have Wp: "?W p" using nt ns by (rule scratch_target_next_temp_file)
  have s1: "step ?W is_convert_event st st1" using nt by (rule step_next_temp_file)
  obtain r2 st2 where h: "sh_run e ''pvoc'' [''synth'', path f, p] [p] st1 = (r2, st2)"
    by (cases "sh_run e ''pvoc'' [''synth'', path f, p] [p] st1")
  have s2: "step ?W is_convert_event st1 st2"
    using h _ _ by (rule step_sh_run) (simp_all add: Wp)
  from assms True nt h have "st' = st2"
    by (cases r2) (simp_all add: convert_to_wav_def)
  with s1 s2 show ?thesis using step_trans by blast
qed



lemma step_prepare_channels:
  "prepare_channels e ex rc fs acc st = (r, st') \<Longrightarrow>
     step (scratch_target ex names) is_split_event st st'"
proof (induction fs arbitrary: acc st)
  case Nil
  then show ?case by (simp add: step_refl)
next
  case (Cons f fs)
  show ?case
  proof (cases "rc = MONO \<and> is_stereo f")
    case True
    obtain r1 st1 where sp: "split_stereo e ex f st = (r1, st1)"
      by (cases "split_stereo e ex f st")
    have s1: "step (scratch_target ex names) is_split_event st st1"
      using sp by (rule step_split_stereo)
    show ?thesis
    proof (cases r1)
      case (Inl err)
      with Cons.prems True sp have "st' = st1" by simp
      with s1 show ?thesis by simp
    next
      case (Inr mono_files)
      with Cons.prems True sp
      have "prepare_channels e ex rc fs (acc @ mono_files) st1 = (r, st')" by simp
      then have "step (scratch_target ex names) is_split_event st1 st'" by (rule Cons.IH)
      with s1 show ?thesis by (rule step_trans)
    qed
  next
    case False
    show ?thesis
    proof (cases "rc = STEREO \<and> is_mono f")
      case True
      with Cons.prems False have "st' = st" by auto
      then show ?thesis by (simp add: step_refl)
    next
      case nm: False
      with Cons.prems False
      have "prepare_channels e ex rc fs (acc @ [f]) st = (r, st')" by auto
      then show ?thesis by (rule Cons.IH)
    qed
  qed
qed


lemma step_convert_formats:
  "convert_formats e ex rf fs acc st = (r, st') \<Longrightarrow>
     step (scratch_target ex names) is_convert_event st st'"
proof (induction fs arbitrary: acc st)
  case Nil
  then show ?case by (simp add: step_refl)
next
  case (Cons f fs)
  consider (ana) "rf = ANA \<and> is_wav f" | (wav) "\<not> (rf = ANA \<and> is_wav f)" "rf = WAV \<and> is_ana f"
    | (keep) "\<not> (rf = ANA \<and> is_wav f)" "\<not> (rf = WAV \<and> is_ana f)" by blast
  then show ?case
  proof cases
    case ana
    obtain r1 st1 where c: "convert_to_ana e ex f st = (r1, st1)"
      by (cases "convert_to_ana e ex f st")
    have s1: "step (scratch_target ex names) is_convert_event st st1"
      using c by (rule step_convert_to_ana)
    show ?thesis
    proof (cases r1)
      case (Inl err)
      with Cons.prems ana c have "st' = st1" by simp
      with s1 show ?thesis by simp
    next
      case (Inr g)
      with Cons.prems ana c
      have "convert_formats e ex rf fs (acc @ [g]) st1 = (r, st')" by simp
      then have "step (scratch_target ex names) is_convert_event st1 st'" by (rule Cons.IH)
      with s1 show ?thesis by (rule step_trans)
    qed
  next
    case wav
    obtain r1 st1 where c: "convert_to_wav e ex f st = (r1, st1)"
      by (cases "convert_to_wav e ex f st")
    have s1: "step (scratch_target ex names) is_convert_event st st1"
      using c by (rule step_convert_to_wav)
    show ?thesis
    proof (cases r1)
      case (Inl err)
      with Cons.prems wav c have "st' = st1" by simp
      with s1 show ?thesis by simp
    next
      case (Inr g)
      with Cons.prems wav c
      have "convert_formats e ex rf fs (acc @ [g]) st1 = (r, st')" by simp
      then have "step (scratch_target ex names) is_convert_event st1 st'" by (rule Cons.IH)
      with s1 show ?thesis by (rule step_trans)
    qed
  next
    case keep
    with Cons.prems have "convert_formats e ex rf fs (acc @ [f]) st = (r, st')" by simp
    then show ?thesis by (rule Cons.IH)
  qed
qed






lemma step_prepare_inputs:
  assumes "prepare_inputs e ex fs rf rc st = (r, st')"
  shows "step (scratch_target ex names) (\<lambda>ev. True) st st'"
proof -
  obtain r1 st1 where pc: "prepare_channels e ex rc fs [] st = (r1, st1)"
    by (cases "prepare_channels e ex rc fs [] st")
  have s1: "step (scratch_target ex names) (\<lambda>ev. True) st st1"
    using step_prepare_channels [OF pc] by (rule step_any)
  show ?thesis
  proof (cases r1)
    case (Inl err)
    with assms pc have "st' = st1" by (simp add: prepare_inputs_def)
    with s1 show ?thesis by simp
  next
    case (Inr prepared)
    with assms pc have "convert_formats e ex rf prepared [] st1 = (r, st')"
      by (simp add: prepare_inputs_def)
    from step_convert_formats [OF this] have "step (scratch_target ex names) (\<lambda>ev. True) st1 st'"
      by (rule step_any)
    with s1 show ?thesis by (rule step_trans)
  qed
qed


lemma replicate_numeral: "replicate (numeral k) x = x # replicate (pred_numeral k) x"
  by (simp add: numeral_eq_Suc)


section \<open>Scratch file names\<close>

lemma of_char_digit_char: "k < 10 \<Longrightarrow> of_char (digit_char k) = (48 + k :: nat)"
proof -
  assume "k < 10"
  then have "k \<in> {0, 1, 2, 3, 4, 5, 6, 7, 8, 9}" by auto
  then show ?thesis by (auto simp: digit_char_def)
qed

lemma digit_char_not_underscore: "k < 10 \<Longrightarrow> digit_char k \<noteq> CHR ''_''"
proof -
  assume "k < 10"
  then have "k \<in> {0, 1, 2, 3, 4, 5, 6, 7, 8, 9}" by auto
  then show ?thesis by (auto simp: digit_char_def)
qed

lemma digits_value_snoc:
  "digits_value (s @ [ch]) = 10 * digits_value s + (of_char ch - 48)"
  by (simp add: digits_value_def)

lemma digits_value_str_nat: "digits_value (str_nat n) = n"
proof (induction n rule: str_nat.induct)
  case (1 n)
  show ?case
  proof (cases "n < 10")
    case True
    then show ?thesis
      by (subst str_nat.simps) (simp add: digits_value_def of_char_digit_char)
  next
    case False
    then have "digits_value (str_nat n) =
        10 * digits_value (str_nat (n div 10)) + (of_char (digit_char (n mod 10)) - 48)"
      by (subst str_nat.simps) (simp add: digits_value_snoc)
    also have "\<dots> = 10 * (n div 10) + n mod 10"
      using 1 False by (simp add: of_char_digit_char)
    finally show ?thesis by simp
  qed
qed

lemma digits_value_zeros:
  "foldl (\<lambda>a ch. 10 * a + (of_char ch - 48)) 0 (replicate k (CHR ''0'')) = (0::nat)"
  by (induction k) simp_all

lemma digits_value_zero_pad: "digits_value (zero_pad w (str_nat n)) = n"
  using digits_value_str_nat [of n]
  by (simp add: zero_pad_def digits_value_def digits_value_zeros)

lemma no_underscore_str_nat: "CHR ''_'' \<notin> set (str_nat n)"
proof (induction n rule: str_nat.induct)
  case (1 n)
  show ?case
  proof (cases "n < 10")
    case True
    then show ?thesis using digit_char_not_underscore [of n] by (subst str_nat.simps) simp
  next
    case False
    then show ?thesis
      using 1 digit_char_not_underscore [of "n mod 10"] by (subst str_nat.simps) simp
  qed
qed

lemma no_underscore_zero_pad: "CHR ''_'' \<notin> set (zero_pad w (str_nat n))"
  using no_underscore_str_nat [of n] by (auto simp: zero_pad_def)

lemma counter_digits_temp_file_path:
  "counter_digits (temp_file_path ex b c ''txt'') = zero_pad 4 (str_nat c)"
proof -
  let ?z = "zero_pad 4 (str_nat c)"
  let ?n = "b @ ''_'' @ ?z @ ''.'' @ ''txt''"
  obtain pre where p: "temp_file_path ex b c ''txt'' = pre @ ?n"
    by (cases "starts_with ''/'' ?n")
      (auto simp: temp_file_path_def path_join_def simp del: append.simps intro: that [of "[]"]
        that [of "temp_dir ex @ ''/''"])
  have "rev (pre @ ?n) = ''txt.'' @ rev ?z @ CHR ''_'' # rev b @ rev pre" by simp
  then have "drop 4 (rev (pre @ ?n)) = rev ?z @ CHR ''_'' # rev b @ rev pre" by simp
  moreover have "\<forall>x \<in> set (rev ?z). x \<noteq> CHR ''_''"
    using no_underscore_zero_pad [of 4 c] by auto
  ultimately have "takeWhile (\<lambda>ch. ch \<noteq> CHR ''_'') (drop 4 (rev (pre @ ?n))) = rev ?z"
    by (simp add: takeWhile_tail)
  then show ?thesis by (simp add: counter_digits_def p)
qed

lemma temp_file_path_inj:
  assumes "temp_file_path ex b1 c1 ''txt'' = temp_file_path ex b2 c2 ''txt''"
  shows "c1 = c2"
proof -
  from assms have "zero_pad 4 (str_nat c1) = zero_pad 4 (str_nat c2)"
    using counter_digits_temp_file_path by metis
  then have "digits_value (zero_pad 4 (str_nat c1)) = digits_value (zero_pad 4 (str_nat c2))"
    by simp
  then show ?thesis by (simp add: digits_value_zero_pad)
qed

lemma next_temp_file_path:
  "next_temp_file ex b ext st = (temp_file_path ex b (counter st + 1) ext,
     st\<lparr>counter := counter st + 1\<rparr>)"
  by (simp add: next_temp_file_def temp_file_path_def Let_def)

section \<open>Materialization\<close>

lemma log_diagnostics_props:
  "files (log_diagnostics ws st) = files st \<and> counter (log_diagnostics ws st) = counter st \<and>
   dirs (log_diagnostics ws st) = dirs st \<and>
   (\<exists>evs. trace (log_diagnostics ws st) = trace st @ evs \<and>
      list_all (\<lambda>ev. \<not> is_external_call ev) evs)"
proof (induction ws arbitrary: st)
  case Nil
  then show ?case by simp
next
  case (Cons w ws)
  obtain t d where w: "w = BeyondDuration t d" by (cases w)
  from Cons.IH [of "log (Warn t d) st"] show ?case
    by (auto simp: w log_def)
qed

lemma write_breakpoint_file_success:
  assumes "write_breakpoint_file e ex bp d base st = (Inr fp, st')"
  shows "\<exists>pts ws evs.
           to_absolute_times e bp d = Inr (pts, ws) \<and>
           fp = temp_file_path ex base (counter st + 1) ''txt'' \<and>
           counter st' = counter st + 1 \<and>
           trace st' = trace st @ evs @ [WriteText fp pts] \<and>
           list_all (\<lambda>ev. \<not> is_external_call ev) evs \<and>
           files st' = (files st)(fp \<mapsto> Text pts)"
proof -
  let ?st1 = "st\<lparr>counter := counter st + 1\<rparr>"
  let ?fp = "temp_file_path ex base (counter st + 1) ''txt''"
  from assms have w: "write_to_file e bp ?fp d ?st1 = (Inr fp, st')"
    by (simp add: write_breakpoint_file_def next_temp_file_path)
  then obtain pts ws where r: "to_absolute_times e bp d = Inr (pts, ws)"
    by (cases "to_absolute_times e bp d") (auto simp: write_to_file_def)
  let ?st2 = "log_diagnostics ws ?st1"
  from w r have fp: "fp = ?fp"
    and st': "st' = log (WriteText ?fp pts) (?st2\<lparr>files := (files ?st2)(?fp \<mapsto> Text pts)\<rparr>)"
    by (auto simp: write_to_file_def Let_def)
  from log_diagnostics_props [of ws ?st1] obtain evs
    where l: "files ?st2 = files st" "counter ?st2 = counter st + 1"
      "trace ?st2 = trace st @ evs" "list_all (\<lambda>ev. \<not> is_external_call ev) evs"
    by auto
  from l have "counter st' = counter st + 1"
    and "trace st' = trace st @ evs @ [WriteText fp pts]"
    and "files st' = (files st)(fp \<mapsto> Text pts)"
    by (simp_all add: st' fp log_def)
  with r fp l(4) show ?thesis by blast
qed

lemma materialized_mono:
  assumes "materialized e ex nm d st1 st' k p p'" and "counter st \<le> counter st1"
    and "trace st1 = trace st @ evs1" and "trace st' = trace st1 @ evs2"
  shows "materialized e ex nm d st st' k p p'"
proof (cases p)
  case (Curve bp)
  with assms(1) obtain c pts ws where c: "counter st1 < c" "c \<le> counter st'"
    "p' = StrParam (temp_file_path ex (nm @ ''_param'' @ str_nat k) c ''txt'')"
    "to_absolute_times e bp d = Inr (pts, ws)"
    "WriteText (temp_file_path ex (nm @ ''_param'' @ str_nat k) c ''txt'') pts
       \<in> set (drop (length (trace st1)) (trace st'))"
    "files st' (temp_file_path ex (nm @ ''_param'' @ str_nat k) c ''txt'') = Some (Text pts)"
    by (auto simp: materialized_def)
  from c(5) assms(3,4)
  have "WriteText (temp_file_path ex (nm @ ''_param'' @ str_nat k) c ''txt'') pts
       \<in> set (drop (length (trace st)) (trace st'))"
    by simp
  moreover from c(1) assms(2) have "counter st < c" by simp
  ultimately show ?thesis using c Curve by (auto simp: materialized_def)
qed (use assms(1) in \<open>simp_all add: materialized_def\<close>)

lemma process_params_materialized:
  assumes "process_params e ex nm d i ps acc st = (Inr out, st')"
  shows "\<exists>new evs.
           out = acc @ new \<and> length new = length ps \<and>
           counter st \<le> counter st' \<and>
           trace st' = trace st @ evs \<and> list_all (\<lambda>ev. \<not> is_external_call ev) evs \<and>
           (\<forall>p. (\<forall>b c. counter st < c \<longrightarrow> p \<noteq> temp_file_path ex b c ''txt'')
                \<longrightarrow> files st' p = files st p) \<and>
           (\<forall>j < length ps. materialized e ex nm d st st' (i + j) (ps ! j) (new ! j))"
  using assms
proof (induction ps arbitrary: i acc st)
  case Nil
  then show ?case by simp
next
  case (Cons p ps)
  show ?case
  proof (cases "is_automatable p")
    case False
    with Cons.prems
    have rest: "process_params e ex nm d (i + 1) ps (acc @ [p]) st = (Inr out, st')"
      by (cases p) simp_all
    from Cons.IH [OF rest] obtain new evs where ih:
      "out = (acc @ [p]) @ new" "length new = length ps" "counter st \<le> counter st'"
      "trace st' = trace st @ evs" "list_all (\<lambda>ev. \<not> is_external_call ev) evs"
      "\<forall>q. (\<forall>b c. counter st < c \<longrightarrow> q \<noteq> temp_file_path ex b c ''txt'')
            \<longrightarrow> files st' q = files st q"
      "\<forall>j < length ps. materialized e ex nm d st st' (i + 1 + j) (ps ! j) (new ! j)"
      by blast
    have head: "materialized e ex nm d st st' i p p"
      using False by (cases p) (simp_all add: materialized_def)
    have all: "\<forall>j < length (p # ps).
        materialized e ex nm d st st' (i + j) ((p # ps) ! j) ((p # new) ! j)"
    proof (intro allI impI)
      fix j assume j: "j < length (p # ps)"
      show "materialized e ex nm d st st' (i + j) ((p # ps) ! j) ((p # new) ! j)"
      proof (cases j)
        case 0
        with head show ?thesis by simp
      next
        case (Suc j')
        with j ih(7) show ?thesis by simp
      qed
    qed
    from ih(1) have "out = acc @ (p # new)" by simp
    moreover from ih(2) have "length (p # new) = length (p # ps)" by simp
    ultimately show ?thesis using ih(3,4,5,6) all by blast
  next
    case True
    then obtain bp where p: "p = Curve bp" by (cases p) simp_all
    with Cons.prems obtain fp st1
      where w: "write_breakpoint_file e ex bp d (nm @ ''_param'' @ str_nat i) st = (Inr fp, st1)"
        and rest: "process_params e ex nm d (i + 1) ps (acc @ [StrParam fp]) st1 = (Inr out, st')"
      by (auto split: prod.splits sum.splits)
    from write_breakpoint_file_success [OF w] obtain pts ws evs1 where wr:
      "to_absolute_times e bp d = Inr (pts, ws)"
      "fp = temp_file_path ex (nm @ ''_param'' @ str_nat i) (counter st + 1) ''txt''"
      "counter st1 = counter st + 1"
      "trace st1 = trace st @ evs1 @ [WriteText fp pts]"
      "list_all (\<lambda>ev. \<not> is_external_call ev) evs1"
      "files st1 = (files st)(fp \<mapsto> Text pts)"
      by blast
    from Cons.IH [OF rest] obtain new evs where ih:
      "out = (acc @ [StrParam fp]) @ new" "length new = length ps" "counter st1 \<le> counter st'"
      "trace st' = trace st1 @ evs" "list_all (\<lambda>ev. \<not> is_external_call ev) evs"
      "\<forall>q. (\<forall>b c. counter st1 < c \<longrightarrow> q \<noteq> temp_file_path ex b c ''txt'')
            \<longrightarrow> files st' q = files st1 q"
      "\<forall>j < length ps. materialized e ex nm d st1 st' (i + 1 + j) (ps ! j) (new ! j)"
      by blast
    let ?evs = "evs1 @ [WriteText fp pts] @ evs"
    have tr: "trace st' = trace st @ ?evs" using ih(4) wr(4) by simp
    have ev: "list_all (\<lambda>ev. \<not> is_external_call ev) ?evs" using ih(5) wr(5) by simp
    have cnt: "counter st \<le> counter st'" using ih(3) wr(3) by simp
    have keep: "files st' fp = Some (Text pts)"
    proof -
      have "\<forall>b c. counter st1 < c \<longrightarrow> fp \<noteq> temp_file_path ex b c ''txt''"
      proof (intro allI impI notI)
        fix b c assume "counter st1 < c" and "fp = temp_file_path ex b c ''txt''"
        with wr(2) have "counter st + 1 = c" using temp_file_path_inj by metis
        with \<open>counter st1 < c\<close> wr(3) show False by simp
      qed
      with ih(6) have "files st' fp = files st1 fp" by blast
      with wr(6) show ?thesis by simp
    qed
    have frame: "\<forall>q. (\<forall>b c. counter st < c \<longrightarrow> q \<noteq> temp_file_path ex b c ''txt'')
            \<longrightarrow> files st' q = files st q"
    proof (intro allI impI)
      fix q assume q: "\<forall>b c. counter st < c \<longrightarrow> q \<noteq> temp_file_path ex b c ''txt''"
      then have "\<forall>b c. counter st1 < c \<longrightarrow> q \<noteq> temp_file_path ex b c ''txt''"
        using wr(3) by simp
      with ih(6) have "files st' q = files st1 q" by blast
      moreover from q wr(2) have "q \<noteq> fp" by auto
      ultimately show "files st' q = files st q" using wr(6) by simp
    qed
    have head: "materialized e ex nm d st st' i p (StrParam fp)"
      unfolding materialized_def p param.case
    proof (intro exI conjI)
      show "counter st < counter st + 1" by simp
      show "counter st + 1 \<le> counter st'" using ih(3) wr(3) by simp
      show "StrParam fp =
          StrParam (temp_file_path ex (nm @ ''_param'' @ str_nat i) (counter st + 1) ''txt'')"
        using wr(2) by simp
      show "to_absolute_times e bp d = Inr (pts, ws)" by (rule wr(1))
      show "WriteText (temp_file_path ex (nm @ ''_param'' @ str_nat i) (counter st + 1) ''txt'')
          pts \<in> set (drop (length (trace st)) (trace st'))"
        using tr wr(2) by simp
      show "files st' (temp_file_path ex (nm @ ''_param'' @ str_nat i) (counter st + 1) ''txt'')
          = Some (Text pts)"
        using keep wr(2) by simp
    qed
    have all: "\<forall>j < length (p # ps).
        materialized e ex nm d st st' (i + j) ((p # ps) ! j) ((StrParam fp # new) ! j)"
    proof (intro allI impI)
      fix j assume j: "j < length (p # ps)"
      show "materialized e ex nm d st st' (i + j) ((p # ps) ! j) ((StrParam fp # new) ! j)"
      proof (cases j)
        case 0
        with head show ?thesis by simp
      next
        case (Suc j')
        with j ih(7) have "materialized e ex nm d st1 st' (i + 1 + j') (ps ! j') (new ! j')"
          by simp
        then have "materialized e ex nm d st st' (i + 1 + j') (ps ! j') (new ! j')"
          using _ wr(4) ih(4)
          by (rule materialized_mono [where ?evs1.0 = "evs1 @ [WriteText fp pts]"])
            (simp_all add: wr(3))
        with Suc show ?thesis by simp
      qed
    qed
    from ih(1) have "out = acc @ (StrParam fp # new)" by simp
    moreover from ih(2) have "length (StrParam fp # new) = length (p # ps)" by simp
    ultimately show ?thesis using cnt tr ev frame all by blast
  qed
qed

lemma step_process_params:
  assumes "nm \<in> set names"
  shows "process_params e ex nm d i ps acc st = (r, st') \<Longrightarrow>
           step (scratch_target ex names) is_materialize_event st st'"
proof (induction ps arbitrary: i acc st)
  case Nil
  then show ?case by (simp add: step_refl)
next
  case (Cons p ps)
  show ?case
  proof (cases "is_automatable p")
    case False
    with Cons.prems
    have "process_params e ex nm d (i + 1) ps (acc @ [p]) st = (r, st')"
      by (cases p) simp_all
    then show ?thesis by (rule Cons.IH)
  next
    case True
    then obtain bp where p: "p = Curve bp" by (cases p) simp_all
    obtain r1 st1
      where w: "write_breakpoint_file e ex bp d (nm @ ''_param'' @ str_nat i) st = (r1, st1)"
      by (cases "write_breakpoint_file e ex bp d (nm @ ''_param'' @ str_nat i) st")
    have s1: "step (scratch_target ex names) is_materialize_event st st1"
      using w assms by (rule step_write_breakpoint_file)
    show ?thesis
    proof (cases r1)
      case (Inl err)
      with Cons.prems p w have "st' = st1" by simp
      with s1 show ?thesis by simp
    next
      case (Inr fp)
      with Cons.prems p w
      have "process_params e ex nm d (i + 1) ps (acc @ [StrParam fp]) st1 = (r, st')" by simp
      then have "step (scratch_target ex names) is_materialize_event st1 st'" by (rule Cons.IH)
      with s1 show ?thesis by (rule step_trans)
    qed
  qed
qed

lemma step_process_breakpoints:
  assumes "process_breakpoints e ex op ins st = (r, st')" and "name op \<in> set names"
  shows "step (scratch_target ex names) is_materialize_event st st'"
proof (cases "list_ex is_automatable (params op)")
  case False
  with assms(1) show ?thesis by (simp add: process_breakpoints_def step_refl)
next
  case True
  show ?thesis
  proof (cases ins)
    case Nil
    with assms(1) True show ?thesis by (simp add: process_breakpoints_def step_refl)
  next
    case (Cons first others)
    obtain r1 st1 where g: "get_duration e first st = (r1, st1)"
      by (cases "get_duration e first st")
    have s1: "step (scratch_target ex names) is_materialize_event st st1"
      using g by (rule step_get_duration)
    show ?thesis
    proof (cases r1)
      case (Inl err)
      with assms(1) True Cons g have "st' = st1" by (simp add: process_breakpoints_def)
      with s1 show ?thesis by simp
    next
      case (Inr d)
      obtain r2 st2 where pp: "process_params e ex (name op) d 0 (params op) [] st1 = (r2, st2)"
        by (cases "process_params e ex (name op) d 0 (params op) [] st1")
      have s2: "step (scratch_target ex names) is_materialize_event st1 st2"
        using assms(2) pp by (rule step_process_params)
      from assms(1) True Cons g Inr pp have "st' = st2"
        by (cases r2) (simp_all add: process_breakpoints_def)
      with s1 s2 show ?thesis using step_trans by blast
    qed
  qed
qed

lemma process_breakpoints_fields:
  "process_breakpoints e ex op ins st = (Inr op', st') \<Longrightarrow> op' = op\<lparr>params := params op'\<rparr>"
  by (auto simp: process_breakpoints_def split: if_splits list.splits prod.splits sum.splits)

text \<open>
  C6. Materialization of an operation for one invocation. With no curve among the
  parameters the operation is returned as it is and nothing happens. Otherwise, when it
  returns: the invocation has a first input, whose duration was asked of \<^verbatim>\<open>sndinfo len\<close>
  (the only external call made); the result is the operation with a new parameter list
  of the same length and every other field unchanged; a scalar parameter is passed
  through; a curve parameter is replaced by the path of a scratch file, named with a
  fresh counter value, to which the curve resolved against that duration was written and
  which still holds it. The template is an argument passed by value: the function has no
  other result than the derived operation and the new state.
\<close>

theorem process_breakpoints_materializes:
  "(\<not> list_ex is_automatable (params op)
      \<longrightarrow> process_breakpoints e ex op ins st = (Inr op, st)) \<and>
   (list_ex is_automatable (params op) \<and> process_breakpoints e ex op ins st = (Inr op', st')
      \<longrightarrow> (\<exists>first others d evs.
            ins = first # others \<and>
            sndinfo_duration e (trace st) (path first) = Some d \<and>
            trace st' = trace st @ Sh ''sndinfo'' [''len'', path first] # evs \<and>
            list_all (\<lambda>ev. \<not> is_external_call ev) evs \<and>
            op' = op\<lparr>params := params op'\<rparr> \<and>
            length (params op') = length (params op) \<and>
            (\<forall>j < length (params op).
               materialized e ex (name op) d st st' j (params op ! j) (params op' ! j))))"
proof (intro conjI impI)
  assume "\<not> list_ex is_automatable (params op)"
  then show "process_breakpoints e ex op ins st = (Inr op, st)"
    by (simp add: process_breakpoints_def)
next
  assume a: "list_ex is_automatable (params op) \<and>
    process_breakpoints e ex op ins st = (Inr op', st')"
  then obtain first others where ins: "ins = first # others"
    by (cases ins) (auto simp: process_breakpoints_def)
  let ?st1 = "log (Sh ''sndinfo'' [''len'', path first]) st"
  from a ins obtain d where d: "sndinfo_duration e (trace st) (path first) = Some d"
    by (cases "sndinfo_duration e (trace st) (path first)")
      (auto simp: process_breakpoints_def get_duration_def Let_def)
  with a ins obtain ps'
    where pp: "process_params e ex (name op) d 0 (params op) [] ?st1 = (Inr ps', st')"
      and op': "op' = op\<lparr>params := ps'\<rparr>"
    by (auto simp: process_breakpoints_def get_duration_def Let_def
        split: prod.splits sum.splits)
  from process_params_materialized [OF pp] obtain evs where m:
    "length ps' = length (params op)"
    "trace st' = trace ?st1 @ evs" "list_all (\<lambda>ev. \<not> is_external_call ev) evs"
    "\<forall>j < length (params op).
       materialized e ex (name op) d ?st1 st' (0 + j) (params op ! j) (ps' ! j)"
    by auto
  have tr: "trace st' = trace st @ Sh ''sndinfo'' [''len'', path first] # evs"
    using m(2) by (simp add: log_def)
  have all: "\<forall>j < length (params op).
       materialized e ex (name op) d st st' j (params op ! j) (params op' ! j)"
  proof (intro allI impI)
    fix j assume "j < length (params op)"
    with m(4) have "materialized e ex (name op) d ?st1 st' j (params op ! j) (ps' ! j)"
      by simp
    then have "materialized e ex (name op) d st st' j (params op ! j) (ps' ! j)"
      by (rule materialized_mono [where ?evs1.0 = "[Sh ''sndinfo'' [''len'', path first]]"
            and ?evs2.0 = evs]) (simp_all add: log_def m(2))
    then show "materialized e ex (name op) d st st' j (params op ! j) (params op' ! j)"
      by (simp add: op')
  qed
  from op' have "op' = op\<lparr>params := params op'\<rparr>" by simp
  moreover from op' m(1) have "length (params op') = length (params op)" by simp
  ultimately show "\<exists>first others d evs.
            ins = first # others \<and>
            sndinfo_duration e (trace st) (path first) = Some d \<and>
            trace st' = trace st @ Sh ''sndinfo'' [''len'', path first] # evs \<and>
            list_all (\<lambda>ev. \<not> is_external_call ev) evs \<and>
            op' = op\<lparr>params := params op'\<rparr> \<and>
            length (params op') = length (params op) \<and>
            (\<forall>j < length (params op).
               materialized e ex (name op) d st st' j (params op ! j) (params op' ! j))"
    using ins d tr m(3) all by blast
qed

theorem process_breakpoints_materializes_witness:
  "list_ex is_automatable (params curve_op) \<and>
   fst (process_breakpoints env0 ex0 curve_op [mono_ana ''in.ana''] st_in) =
     Inr (curve_op\<lparr>params := [StrParam ''tmp/blur_curve_param0_0001.txt'', FloatParam 2]\<rparr>) \<and>
   files (snd (process_breakpoints env0 ex0 curve_op [mono_ana ''in.ana''] st_in))
     ''tmp/blur_curve_param0_0001.txt'' = Some (Text [(0, 5), (1, 10), (99 / 50, 2)]) \<and>
   (\<exists>first others d evs.
      [mono_ana ''in.ana''] = first # others \<and>
      sndinfo_duration env0 (trace st_in) (path first) = Some d \<and>
      trace (snd (process_breakpoints env0 ex0 curve_op [mono_ana ''in.ana''] st_in)) =
        trace st_in @ Sh ''sndinfo'' [''len'', path first] # evs \<and>
      list_all (\<lambda>ev. \<not> is_external_call ev) evs)"
proof -
  let ?r = "process_breakpoints env0 ex0 curve_op [mono_ana ''in.ana''] st_in"
  have a: "list_ex is_automatable (params curve_op)" by code_simp
  have r: "fst ?r =
     Inr (curve_op\<lparr>params := [StrParam ''tmp/blur_curve_param0_0001.txt'', FloatParam 2]\<rparr>)"
    by code_simp
  have f: "files (snd ?r) ''tmp/blur_curve_param0_0001.txt'' =
      Some (Text [(0, 5), (1, 10), (99 / 50, 2)])"
    by code_simp
  from r have "?r = (Inr (curve_op\<lparr>params :=
      [StrParam ''tmp/blur_curve_param0_0001.txt'', FloatParam 2]\<rparr>), snd ?r)"
    by (metis prod.collapse)
  with a process_breakpoints_materializes [of curve_op env0 ex0 "[mono_ana ''in.ana'']" st_in
      "curve_op\<lparr>params := [StrParam ''tmp/blur_curve_param0_0001.txt'', FloatParam 2]\<rparr>"
      "snd ?r"]
  have "\<exists>first others d evs.
      [mono_ana ''in.ana''] = first # others \<and>
      sndinfo_duration env0 (trace st_in) (path first) = Some d \<and>
      trace (snd ?r) = trace st_in @ Sh ''sndinfo'' [''len'', path first] # evs \<and>
      list_all (\<lambda>ev. \<not> is_external_call ev) evs"
    by blast
  with a r f show ?thesis by blast
qed

section \<open>Probing the inputs\<close>

lemma get_file_info_cases:
  "get_file_info e p st =
     (if path_suffix p = ''.ana'' then (Inr (ANA, MONO), st)
      else if path_suffix p = ''.wav'' then
        (case Option.bind (sfprops_c e (trace st) p) channel_mode_of of
           None \<Rightarrow> (Inl (RuntimeError ''Failed to get channel info''),
                     log (Sh ''sfprops'' [''-c'', p]) st)
         | Some chans \<Rightarrow> (Inr (WAV, chans), log (Sh ''sfprops'' [''-c'', p]) st))
      else (Inl (ValueError ''Unknown file format''), st))"
  by (simp add: get_file_info_def Let_def split: option.splits)





section \<open>Channel groups\<close>

lemma group_append_keys:
  "map fst (group_append k f gs) =
     (if k \<in> set (map fst gs) then map fst gs else map fst gs @ [k])"
  by (induction gs) (force simp: image_iff)+

lemma group_append_map_of:
  "map_of (group_append k f gs) =
     (map_of gs)(k \<mapsto> (case map_of gs k of None \<Rightarrow> [f] | Some g \<Rightarrow> g @ [f]))"
  by (induction gs) (auto simp: fun_eq_iff)

lemma grouped_append:
  assumes "grouped seen gs"
  shows "grouped (seen @ [f]) (group_append (channel_index f) f gs)"
proof -
  from assms have d: "distinct (map fst gs)"
    and m: "\<And>k. map_of gs k =
             (if k \<in> channel_index ` set seen
              then Some (filter (\<lambda>f. channel_index f = k) seen) else None)"
    by (simp_all add: grouped_def)
  have keys: "set (map fst gs) = channel_index ` set seen"
  proof -
    have "set (map fst gs) = dom (map_of gs)" by (simp add: dom_map_of_conv_image_fst)
    also have "\<dots> = channel_index ` set seen" using m by (auto simp: dom_def)
    finally show ?thesis .
  qed
  have "distinct (map fst (group_append (channel_index f) f gs))"
    using d keys by (auto simp: group_append_keys)
  moreover have "\<forall>k. map_of (group_append (channel_index f) f gs) k =
             (if k \<in> channel_index ` set (seen @ [f])
              then Some (filter (\<lambda>g. channel_index g = k) (seen @ [f])) else None)"
    by (auto simp: group_append_map_of m filter_empty_conv) (metis imageI)+
  ultimately show ?thesis by (simp add: grouped_def)
qed

lemma grouped_group_by_channel:
  "grouped seen gs \<Longrightarrow> grouped (seen @ fs) (group_by_channel fs gs)"
proof (induction fs arbitrary: seen gs)
  case Nil
  then show ?case by simp
next
  case (Cons f fs)
  from Cons.IH [OF grouped_append [OF Cons.prems, of f]] show ?case by simp
qed

lemma grouped_start: "grouped [] []"
  by (simp add: grouped_def)

lemma grouped_facts:
  assumes "grouped seen gs"
  shows "distinct (map fst gs)" and "set (map fst gs) = channel_index ` set seen"
    and "\<forall>(k, g) \<in> set gs. g = filter (\<lambda>f. channel_index f = k) seen \<and> g \<noteq> []"
proof -
  from assms show d: "distinct (map fst gs)" by (simp add: grouped_def)
  from assms have m: "\<And>k. map_of gs k =
             (if k \<in> channel_index ` set seen
              then Some (filter (\<lambda>f. channel_index f = k) seen) else None)"
    by (simp add: grouped_def)
  have "set (map fst gs) = dom (map_of gs)" by (simp add: dom_map_of_conv_image_fst)
  also have "\<dots> = channel_index ` set seen" using m by (auto simp: dom_def)
  finally show "set (map fst gs) = channel_index ` set seen" .
  show "\<forall>(k, g) \<in> set gs. g = filter (\<lambda>f. channel_index f = k) seen \<and> g \<noteq> []"
  proof (clarify, intro conjI)
    fix k g assume kg: "(k, g) \<in> set gs"
    with d have mk: "map_of gs k = Some g" by simp
    with m [of k] have in_tags: "k \<in> channel_index ` set seen"
      and g: "g = filter (\<lambda>f. channel_index f = k) seen"
      by (auto split: if_splits)
    from g show "g = filter (\<lambda>f. channel_index f = k) seen" .
    from in_tags g show "g \<noteq> []" by (auto simp: filter_empty_conv)
  qed
qed

lemma create_files_trace [simp]: "trace (create_files outs st) = trace st"
  by (induction outs arbitrary: st) simp_all

lemma execute_cdp_command_success:
  "execute_cdp_command e prog args out st = (Inr u, st') \<Longrightarrow>
     trace st' = trace st @ [Cdp prog args]"
  by (auto simp: execute_cdp_command_def log_def split: if_splits)

lemma materialize_not_cdp: "list_all is_materialize_event evs \<Longrightarrow> filter is_cdp_event evs = []"
proof (induction evs)
  case Nil
  then show ?case by simp
next
  case (Cons ev evs)
  then show ?case by (cases ev) simp_all
qed

lemma get_command_args_paths:
  assumes "get_command_args e op g out = Inr args"
  shows "path out \<in> set args"
    and "if multi_input op then set (map path g) \<subseteq> set args
         else g \<noteq> [] \<and> path (hd g) \<in> set args"
  using assms
  by (auto simp: get_command_args_def Let_def split: if_splits list.splits option.splits)

lemma process_breakpoints_program:
  "process_breakpoints e ex op ins st = (Inr op', st') \<Longrightarrow>
     program op' = program op \<and> multi_input op' = multi_input op"
  by (auto simp: process_breakpoints_def split: if_splits list.splits prod.splits sum.splits)

lemma process_channels_result:
  assumes "process_channels e ex op base groups acc st = (Inr outs, st')"
  shows "\<exists>new evs.
           outs = acc @ new \<and> map channel_index new = map fst groups \<and>
           list_all (\<lambda>f. channels f = MONO \<and> format f = output_format op) new \<and>
           trace st' = trace st @ evs \<and>
           length (filter is_cdp_event evs) = length groups \<and>
           (\<forall>i < length groups.
              invoked op (snd (groups ! i)) (new ! i) (filter is_cdp_event evs ! i))"
  using assms
proof (induction groups arbitrary: acc st)
  case Nil
  then show ?case by simp
next
  case (Cons kg groups)
  obtain k g where kg: "kg = (k, g)" by (cases kg)
  let ?st1 = "st\<lparr>counter := counter st + 1\<rparr>"
  let ?p = "temp_file_path ex (base @ channel_suffix k) (counter st + 1)
              (format_value (output_format op))"
  let ?out = "\<lparr>path = ?p, format = output_format op, channels = MONO, channel_index = k\<rparr>"
  from Cons.prems kg obtain op' st2 args u st3
    where pb: "process_breakpoints e ex op g ?st1 = (Inr op', st2)"
      and ga: "get_command_args e op' g ?out = Inr args"
      and ec: "execute_cdp_command e (program op') args ?p st2 = (Inr u, st3)"
      and rest: "process_channels e ex op base groups (acc @ [?out]) st3 = (Inr outs, st')"
    by (auto simp: next_temp_file_path Let_def split: prod.splits sum.splits)
  from process_breakpoints_program [OF pb]
  have prog: "program op' = program op" and mi: "multi_input op' = multi_input op"
    by simp_all
  from step_process_breakpoints [OF pb, of "[name op]"] obtain evs1
    where e1: "trace st2 = trace ?st1 @ evs1" "list_all is_materialize_event evs1"
    by (auto simp: step_def)
  from execute_cdp_command_success [OF ec] prog
  have e2: "trace st3 = trace st2 @ [Cdp (program op) args]" by simp
  from Cons.IH [OF rest] obtain new evs where ih:
    "outs = (acc @ [?out]) @ new" "map channel_index new = map fst groups"
    "list_all (\<lambda>f. channels f = MONO \<and> format f = output_format op) new"
    "trace st' = trace st3 @ evs" "length (filter is_cdp_event evs) = length groups"
    "\<forall>i < length groups.
       invoked op (snd (groups ! i)) (new ! i) (filter is_cdp_event evs ! i)"
    by blast
  let ?evs = "evs1 @ [Cdp (program op) args] @ evs"
  have f: "filter is_cdp_event ?evs = Cdp (program op) args # filter is_cdp_event evs"
    using materialize_not_cdp [OF e1(2)] by simp
  have inv0: "invoked op g ?out (Cdp (program op) args)"
    using get_command_args_paths [OF ga] mi by (auto simp: invoked_def)
  have all: "\<forall>i < length (kg # groups).
       invoked op (snd ((kg # groups) ! i)) ((?out # new) ! i) (filter is_cdp_event ?evs ! i)"
  proof (intro allI impI)
    fix i assume i: "i < length (kg # groups)"
    show "invoked op (snd ((kg # groups) ! i)) ((?out # new) ! i)
            (filter is_cdp_event ?evs ! i)"
    proof (cases i)
      case 0
      with inv0 kg f show ?thesis by simp
    next
      case (Suc i')
      with i ih(6) f show ?thesis by simp
    qed
  qed
  have "outs = acc @ (?out # new)" using ih(1) by simp
  moreover have "map channel_index (?out # new) = map fst (kg # groups)"
    using ih(2) kg by simp
  moreover have "list_all (\<lambda>f. channels f = MONO \<and> format f = output_format op) (?out # new)"
    using ih(3) by simp
  moreover have "trace st' = trace st @ ?evs" using ih(4) e1(1) e2 by simp
  moreover have "length (filter is_cdp_event ?evs) = length (kg # groups)"
    using f ih(5) by simp
  ultimately show ?case using all by blast
qed

lemma convert_tag_preserved:
  "(convert_to_ana e ex f s = (Inr g, s') \<longrightarrow>
      channel_index g = channel_index f \<and> channels g = channels f) \<and>
   (convert_to_wav e ex f s = (Inr g, s') \<longrightarrow>
      channel_index g = channel_index f \<and> channels g = channels f)"
  by (auto simp: convert_to_ana_def convert_to_wav_def split: if_splits prod.splits sum.splits)

text \<open>
  C2. Executing an operation that requires mono, when it returns: the negotiated
  descriptors are grouped by channel tag, the untagged ones forming the group of
  \<open>None\<close>; the groups have distinct tags, every tag of a descriptor has its group, and a
  group holds all the descriptors of its tag; there is one output descriptor per group,
  in the order of the groups, mono, carrying the tag of its group; the operation was run
  once per group, on that group's inputs and writing that group's output. Both
  conversions keep the channel tag and the channel layout.
\<close>

theorem execute_operation_channel_groups:
  assumes "req_channels (input_requirements op) = MONO"
    and "execute_operation e ex op input_files base st = (Inr outs, st')"
  shows "\<exists>prepared st1 evs.
           prepare_inputs e ex input_files (req_format (input_requirements op)) MONO st
             = (Inr prepared, st1) \<and>
           grouped prepared (group_by_channel prepared []) \<and>
           distinct (map fst (group_by_channel prepared [])) \<and>
           set (map fst (group_by_channel prepared [])) = channel_index ` set prepared \<and>
           (\<forall>(k, g) \<in> set (group_by_channel prepared []).
              g = filter (\<lambda>f. channel_index f = k) prepared \<and> g \<noteq> []) \<and>
           map channel_index outs = map fst (group_by_channel prepared []) \<and>
           list_all (\<lambda>f. channels f = MONO \<and> format f = output_format op) outs \<and>
           trace st' = trace st1 @ evs \<and>
           length (filter is_cdp_event evs) = length (group_by_channel prepared []) \<and>
           (\<forall>i < length (group_by_channel prepared []).
              invoked op (snd (group_by_channel prepared [] ! i)) (outs ! i)
                (filter is_cdp_event evs ! i)) \<and>
           (\<forall>f g s s'. convert_to_ana e ex f s = (Inr g, s')
              \<longrightarrow> channel_index g = channel_index f \<and> channels g = channels f) \<and>
           (\<forall>f g s s'. convert_to_wav e ex f s = (Inr g, s')
              \<longrightarrow> channel_index g = channel_index f \<and> channels g = channels f)"
proof -
  from assms obtain prepared st1
    where pi: "prepare_inputs e ex input_files (req_format (input_requirements op)) MONO st
                 = (Inr prepared, st1)"
      and pc: "process_channels e ex op base (group_by_channel prepared []) [] st1
                 = (Inr outs, st')"
    by (auto simp: execute_operation_def split: prod.splits sum.splits)
  let ?groups = "group_by_channel prepared []"
  have gr: "grouped prepared ?groups"
    using grouped_group_by_channel [OF grouped_start, of prepared] by simp
  from process_channels_result [OF pc] obtain evs where r:
    "map channel_index outs = map fst ?groups"
    "list_all (\<lambda>f. channels f = MONO \<and> format f = output_format op) outs"
    "trace st' = trace st1 @ evs" "length (filter is_cdp_event evs) = length ?groups"
    "\<forall>i < length ?groups. invoked op (snd (?groups ! i)) (outs ! i)
        (filter is_cdp_event evs ! i)"
    by auto
  have c1: "\<forall>f g s s'. convert_to_ana e ex f s = (Inr g, s')
              \<longrightarrow> channel_index g = channel_index f \<and> channels g = channels f"
    using convert_tag_preserved by blast
  have c2: "\<forall>f g s s'. convert_to_wav e ex f s = (Inr g, s')
              \<longrightarrow> channel_index g = channel_index f \<and> channels g = channels f"
    using convert_tag_preserved by blast
  show ?thesis
    apply (rule exI [of _ prepared])
    apply (rule exI [of _ st1])
    apply (rule exI [of _ evs])
    apply (intro conjI)
    apply (rule pi)
    apply (rule gr)
    apply (rule grouped_facts(1) [OF gr])
    apply (rule grouped_facts(2) [OF gr])
    apply (rule grouped_facts(3) [OF gr])
    apply (rule r(1))
    apply (rule r(2))
    apply (rule r(3))
    apply (rule r(4))
    apply (rule r(5))
    apply (rule c1)
    apply (rule c2)
    done
qed

theorem execute_operation_channel_groups_witness:
  "req_channels (input_requirements blur_op) = MONO \<and>
   map channel_index
     (projr (fst (execute_operation env0 ex0 blur_op
        [tagged_ana ''a1.ana'' 1, tagged_ana ''b2.ana'' 2, tagged_ana ''c1.ana'' 1]
        ''op00_blur'' st_in))) = [Some 1, Some 2] \<and>
   filter is_cdp_event
     (trace (snd (execute_operation env0 ex0 blur_op
        [tagged_ana ''a1.ana'' 1, tagged_ana ''b2.ana'' 2, tagged_ana ''c1.ana'' 1]
        ''op00_blur'' st_in))) =
     [Cdp ''blur'' [''blur'', ''a1.ana'', ''tmp/op00_blur_c1_0001.ana'', ''2.0''],
      Cdp ''blur'' [''blur'', ''b2.ana'', ''tmp/op00_blur_c2_0002.ana'', ''2.0'']] \<and>
   (\<exists>prepared st1 evs.
      prepare_inputs env0 ex0
        [tagged_ana ''a1.ana'' 1, tagged_ana ''b2.ana'' 2, tagged_ana ''c1.ana'' 1]
        (req_format (input_requirements blur_op)) MONO st_in = (Inr prepared, st1) \<and>
      map channel_index
        (projr (fst (execute_operation env0 ex0 blur_op
           [tagged_ana ''a1.ana'' 1, tagged_ana ''b2.ana'' 2, tagged_ana ''c1.ana'' 1]
           ''op00_blur'' st_in))) = map fst (group_by_channel prepared []) \<and>
      length (filter is_cdp_event evs) = length (group_by_channel prepared []))"
proof -
  let ?r = "execute_operation env0 ex0 blur_op
     [tagged_ana ''a1.ana'' 1, tagged_ana ''b2.ana'' 2, tagged_ana ''c1.ana'' 1]
     ''op00_blur'' st_in"
  have m: "req_channels (input_requirements blur_op) = MONO" by code_simp
  have ok: "isl (fst ?r) = False" by code_simp
  have tags: "map channel_index (projr (fst ?r)) = [Some 1, Some 2]" by code_simp
  have cdps: "filter is_cdp_event (trace (snd ?r)) =
     [Cdp ''blur'' [''blur'', ''a1.ana'', ''tmp/op00_blur_c1_0001.ana'', ''2.0''],
      Cdp ''blur'' [''blur'', ''b2.ana'', ''tmp/op00_blur_c2_0002.ana'', ''2.0'']]"
    by code_simp
  from ok have "fst ?r = Inr (projr (fst ?r))" by simp
  then have "?r = (Inr (projr (fst ?r)), snd ?r)" by (simp add: prod_eq_iff)
  from execute_operation_channel_groups [OF m this] obtain prepared st1 evs where
    "prepare_inputs env0 ex0
        [tagged_ana ''a1.ana'' 1, tagged_ana ''b2.ana'' 2, tagged_ana ''c1.ana'' 1]
        (req_format (input_requirements blur_op)) MONO st_in = (Inr prepared, st1)"
    "map channel_index (projr (fst ?r)) = map fst (group_by_channel prepared [])"
    "length (filter is_cdp_event evs) = length (group_by_channel prepared [])"
    by blast
  with m tags cdps show ?thesis by blast
qed

section \<open>Steps of a run\<close>

lemma step_get_file_info:
  "get_file_info e p st = (r, st') \<Longrightarrow> step W (\<lambda>ev. True) st st'"
  by (auto simp: get_file_info_cases step_def log_def split: option.splits if_splits)

lemma step_load_inputs:
  "load_inputs e ps acc st = (r, st') \<Longrightarrow> step W (\<lambda>ev. True) st st'"
proof (induction ps arbitrary: acc st)
  case Nil
  then show ?case by (simp add: step_refl)
next
  case (Cons p ps)
  show ?case
  proof (cases "path_exists st p")
    case False
    with Cons.prems show ?thesis by (simp add: step_refl)
  next
    case True
    obtain r1 st1 where g: "get_file_info e p st = (r1, st1)"
      by (cases "get_file_info e p st")
    have s1: "step W (\<lambda>ev. True) st st1" using g by (rule step_get_file_info)
    show ?thesis
    proof (cases r1)
      case (Inl err)
      with Cons.prems True g have "st' = st1" by simp
      with s1 show ?thesis by simp
    next
      case (Inr fc)
      obtain fmt chans where fc: "fc = (fmt, chans)" by (cases fc)
      with Cons.prems True g Inr
      have "load_inputs e ps
        (acc @ [\<lparr>path = p, format = fmt, channels = chans, channel_index = None\<rparr>]) st1
        = (r, st')" by simp
      then have "step W (\<lambda>ev. True) st1 st'" by (rule Cons.IH)
      with s1 show ?thesis by (rule step_trans)
    qed
  qed
qed

lemma no_slash_start_channel_suffix:
  "\<not> starts_with ''/'' base \<Longrightarrow> \<not> starts_with ''/'' (base @ channel_suffix k)"
  by (auto simp: starts_with_slash_append channel_suffix_def split: option.splits)

lemma step_process_channels:
  assumes nm: "name op \<in> set names" and base: "\<not> starts_with ''/'' base"
  shows "process_channels e ex op base groups acc st = (r, st') \<Longrightarrow>
           step (scratch_target ex names) (\<lambda>ev. True) st st'"
proof (induction groups arbitrary: acc st)
  case Nil
  then show ?case by (simp add: step_refl)
next
  case (Cons kg groups)
  let ?W = "scratch_target ex names"
  obtain k g where kg: "kg = (k, g)" by (cases kg)
  let ?st1 = "st\<lparr>counter := counter st + 1\<rparr>"
  let ?p = "temp_file_path ex (base @ channel_suffix k) (counter st + 1)
              (format_value (output_format op))"
  let ?out = "\<lparr>path = ?p, format = output_format op, channels = MONO, channel_index = k\<rparr>"
  have nt: "next_temp_file ex (base @ channel_suffix k) (format_value (output_format op)) st
              = (?p, ?st1)"
    by (rule next_temp_file_path)
  have Wp: "?W ?p"
    using nt no_slash_start_channel_suffix [OF base] by (rule scratch_target_next_temp_file)
  have s1: "step ?W (\<lambda>ev. True) st ?st1" using nt by (rule step_next_temp_file)
  obtain r2 st2 where pb: "process_breakpoints e ex op g ?st1 = (r2, st2)"
    by (cases "process_breakpoints e ex op g ?st1")
  have s2: "step ?W (\<lambda>ev. True) ?st1 st2"
    using step_process_breakpoints [OF pb nm] by (rule step_any)
  show ?case
  proof (cases r2)
    case (Inl err)
    with Cons.prems kg nt pb have "st' = st2" by (simp add: Let_def)
    with s1 s2 show ?thesis using step_trans by blast
  next
    case (Inr op')
    show ?thesis
    proof (cases "get_command_args e op' g ?out")
      case (Inl err)
      with Cons.prems kg nt pb Inr have "st' = st2" by (simp add: Let_def)
      with s1 s2 show ?thesis using step_trans by blast
    next
      case args: (Inr args)
      obtain r3 st3 where ec: "execute_cdp_command e (program op') args ?p st2 = (r3, st3)"
        by (cases "execute_cdp_command e (program op') args ?p st2")
      have s3: "step ?W (\<lambda>ev. True) st2 st3"
        using step_execute_cdp_command [where W = "scratch_target ex names", OF ec Wp]
          by (rule step_any)
      have s13: "step ?W (\<lambda>ev. True) st st3" using s1 s2 s3 step_trans by blast
      show ?thesis
      proof (cases r3)
        case (Inl err)
        with Cons.prems kg nt pb Inr args ec have "st' = st3" by (simp add: Let_def)
        with s13 show ?thesis by simp
      next
        case u: (Inr u)
        with Cons.prems kg nt pb Inr args ec
        have "process_channels e ex op base groups (acc @ [?out]) st3 = (r, st')"
          by (simp add: Let_def)
        then have "step ?W (\<lambda>ev. True) st3 st'" by (rule Cons.IH)
        with s13 show ?thesis by (rule step_trans)
      qed
    qed
  qed
qed

lemma step_execute_operation:
  assumes ex: "execute_operation e ex op fs base st = (r, st')"
    and nm: "name op \<in> set names" and base: "\<not> starts_with ''/'' base"
  shows "step (scratch_target ex names) (\<lambda>ev. True) st st'"
proof -
  let ?W = "scratch_target ex names"
  let ?rc = "req_channels (input_requirements op)"
  obtain r1 st1 where pi: "prepare_inputs e ex fs (req_format (input_requirements op)) ?rc st
      = (r1, st1)"
    by (cases "prepare_inputs e ex fs (req_format (input_requirements op)) ?rc st")
  have s1: "step ?W (\<lambda>ev. True) st st1" using pi by (rule step_prepare_inputs)
  show ?thesis
  proof (cases r1)
    case (Inl err)
    with ex pi have "st' = st1" by (simp add: execute_operation_def)
    with s1 show ?thesis by simp
  next
    case (Inr prepared)
    show ?thesis
    proof (cases "?rc = MONO")
      case True
      with ex pi Inr
      have "process_channels e ex op base (group_by_channel prepared []) [] st1 = (r, st')"
        by (simp add: execute_operation_def)
      from step_process_channels [OF nm base this] s1 show ?thesis using step_trans by blast
    next
      case False
      let ?st2 = "st1\<lparr>counter := counter st1 + 1\<rparr>"
      let ?p = "temp_file_path ex base (counter st1 + 1) (format_value (output_format op))"
      let ?out = "\<lparr>path = ?p, format = output_format op, channels = ?rc,
                     channel_index = None\<rparr>"
      have nt: "next_temp_file ex base (format_value (output_format op)) st1 = (?p, ?st2)"
        by (rule next_temp_file_path)
      have Wp: "?W ?p" using nt base by (rule scratch_target_next_temp_file)
      have s2: "step ?W (\<lambda>ev. True) st1 ?st2" using nt by (rule step_next_temp_file)
      obtain r3 st3 where pb: "process_breakpoints e ex op prepared ?st2 = (r3, st3)"
        by (cases "process_breakpoints e ex op prepared ?st2")
      have s3: "step ?W (\<lambda>ev. True) ?st2 st3"
        using step_process_breakpoints [OF pb nm] by (rule step_any)
      have s13: "step ?W (\<lambda>ev. True) st st3" using s1 s2 s3 step_trans by blast
      show ?thesis
      proof (cases r3)
        case (Inl err)
        with ex pi Inr False nt pb have "st' = st3"
          by (simp add: execute_operation_def Let_def)
        with s13 show ?thesis by simp
      next
        case op': (Inr op')
        show ?thesis
        proof (cases "get_command_args e op' prepared ?out")
          case (Inl err)
          with ex pi Inr False nt pb op' have "st' = st3"
            by (simp add: execute_operation_def Let_def)
          with s13 show ?thesis by simp
        next
          case args: (Inr args)
          obtain r4 st4 where ec: "execute_cdp_command e (program op') args ?p st3 = (r4, st4)"
            by (cases "execute_cdp_command e (program op') args ?p st3")
          have s4: "step ?W (\<lambda>ev. True) st3 st4"
            using step_execute_cdp_command [where W = "scratch_target ex names", OF ec Wp]
          by (rule step_any)
          from ex pi Inr False nt pb op' args ec have "st' = st4"
            by (cases r4) (simp_all add: execute_operation_def Let_def)
          with s13 s4 show ?thesis using step_trans by blast
        qed
      qed
    qed
  qed
qed

lemma no_slash_start_operation_name: "\<not> starts_with ''/'' (operation_name i op)"
  by (simp add: operation_name_def)

lemma step_run_operations:
  assumes "set (map name ops) \<subseteq> set names"
  shows "run_operations e ex i ops cur st = (r, st') \<Longrightarrow>
           step (scratch_target ex names) (\<lambda>ev. True) st st'"
  using assms
proof (induction ops arbitrary: i cur st)
  case Nil
  then show ?case by (simp add: step_refl)
next
  case (Cons op ops)
  obtain r1 st1 where eo: "execute_operation e ex op cur (operation_name i op) st = (r1, st1)"
    by (cases "execute_operation e ex op cur (operation_name i op) st")
  from Cons.prems(2) have nm: "name op \<in> set names" by simp
  have s1: "step (scratch_target ex names) (\<lambda>ev. True) st st1"
    using eo nm no_slash_start_operation_name by (rule step_execute_operation)
  show ?case
  proof (cases r1)
    case (Inl err)
    with Cons.prems(1) eo have "st' = st1" by simp
    with s1 show ?thesis by simp
  next
    case (Inr outs)
    with Cons.prems(1) eo have "run_operations e ex (i + 1) ops outs st1 = (r, st')" by simp
    moreover from Cons.prems(2) have "set (map name ops) \<subseteq> set names" by simp
    ultimately have "step (scratch_target ex names) (\<lambda>ev. True) st1 st'"
      by (rule Cons.IH)
    with s1 show ?thesis by (rule step_trans)
  qed
qed

lemma step_convert_all:
  "convert_all e ex fmt fs st = (r, st') \<Longrightarrow>
     step (scratch_target ex names) (\<lambda>ev. True) st st'"
proof (induction fs arbitrary: r st st')
  case Nil
  then show ?case by (auto simp: step_refl)
next
  case (Cons f fs)
  let ?c = "if fmt = WAV then convert_to_wav e ex f st else convert_to_ana e ex f st"
  obtain r1 st1 where c: "?c = (r1, st1)" by (cases ?c)
  have s1: "step (scratch_target ex names) (\<lambda>ev. True) st st1"
    using c step_convert_to_wav [of e ex f st r1 st1 names]
      step_convert_to_ana [of e ex f st r1 st1 names]
    by (auto split: if_splits intro: step_any)
  show ?case
  proof (cases r1)
    case (Inl err)
    with Cons.prems c have "st' = st1" by simp
    with s1 show ?thesis by simp
  next
    case (Inr f')
    obtain r2 st2 where ca: "convert_all e ex fmt fs st1 = (r2, st2)"
      by (cases "convert_all e ex fmt fs st1")
    have s2: "step (scratch_target ex names) (\<lambda>ev. True) st1 st2"
      using ca by (rule Cons.IH)
    from Cons.prems c Inr ca have "st' = st2" by (cases r2) simp_all
    with s1 s2 show ?thesis using step_trans by blast
  qed
qed


lemma step_copy_result:
  assumes "copy_result f out st = (r, st')"
  shows "step (\<lambda>p. p = out) (\<lambda>ev. True) st st'"
proof -
  obtain r1 st1 where c: "copy_file (path f) out st = (r1, st1)"
    by (cases "copy_file (path f) out st")
  have "step (\<lambda>p. p = out) (\<lambda>ev. True) st st1"
    using c by (rule step_copy_file) simp_all
  moreover from assms c have "st' = st1" by (cases r1) (simp_all add: copy_result_def)
  ultimately show ?thesis by simp
qed

lemma copy_result_failure:
  "copy_result f out st = (Inl err, st') \<Longrightarrow> step (\<lambda>p. False) (\<lambda>ev. True) st st'"
  by (auto simp: copy_result_def copy_file_def step_def log_def
      split: option.splits if_splits prod.splits sum.splits)

lemma step_merge_stereo:
  assumes "merge_stereo e l r' out st = (r, st')"
  shows "step (\<lambda>p. p = out) (\<lambda>ev. True) st st'"
proof (cases "\<not> is_mono l \<or> \<not> is_mono r' \<or> \<not> is_wav l \<or> \<not> is_wav r'")
  case True
  with assms have "st' = st" by (auto simp: merge_stereo_def split: if_splits)
  then show ?thesis by (simp add: step_refl)
next
  case False
  obtain r1 st1 where s: "sh_run e ''submix'' [''interleave'', path l, path r', out] [out] st
      = (r1, st1)"
    by (cases "sh_run e ''submix'' [''interleave'', path l, path r', out] [out] st")
  have "step (\<lambda>p. p = out) (\<lambda>ev. True) st st1"
    using s by (rule step_sh_run) simp_all
  moreover from assms False s have "st' = st1" by (cases r1) (simp_all add: merge_stereo_def)
  ultimately show ?thesis by simp
qed

lemma merge_stereo_failure:
  "merge_stereo e l r' out st = (Inl err, st') \<Longrightarrow>
     step (\<lambda>p. False) (\<lambda>ev. True) st st'"
  by (auto simp: merge_stereo_def sh_run_def step_def log_def
      split: if_splits prod.splits sum.splits)


lemma step_weaken_out:
  "step (\<lambda>p. p = out) E st st' \<Longrightarrow> step (\<lambda>p. W p \<or> p = out) E st st'"
  by (erule step_mono) simp_all

lemma step_weaken_W:
  "step W E st st' \<Longrightarrow> step (\<lambda>p. W p \<or> p = out) E st st'"
  by (erule step_mono) simp_all

lemma step_weaken_none:
  "step (\<lambda>p. False) E st st' \<Longrightarrow> step W E st st'"
  by (erule step_mono) simp_all

text \<open>The branch of the final step that merges two channels.\<close>

lemma step_finalize_pair:
  assumes cl: "(if \<not> is_wav l then convert_to_wav e ex l st else (Inr l, st)) = (rl, st1)"
    and res: "(case (rl, st1) of
                (Inl err, s1) \<Rightarrow> (Inl err, s1)
              | (Inr l', s1) \<Rightarrow>
                  (case (if \<not> is_wav r' then convert_to_wav e ex r' s1 else (Inr r', s1)) of
                     (Inl err, s2) \<Rightarrow> (Inl err, s2)
                   | (Inr r'', s2) \<Rightarrow> merge_stereo e l' r'' out s2)) = (r, st')"
  shows "step (\<lambda>p. scratch_target ex names p \<or> p = out) (\<lambda>ev. True) st st'"
    and "isl r \<Longrightarrow> step (scratch_target ex names) (\<lambda>ev. True) st st'"
proof -
  let ?W = "scratch_target ex names"
  have s1: "step ?W (\<lambda>ev. True) st st1"
    using cl step_convert_to_wav [of e ex l st rl st1 names]
    by (auto split: if_splits intro: step_any step_refl)
  have "step (\<lambda>p. ?W p \<or> p = out) (\<lambda>ev. True) st st' \<and>
        (isl r \<longrightarrow> step ?W (\<lambda>ev. True) st st')"
  proof (cases rl)
    case (Inl err)
    with res have "st' = st1" by simp
    with s1 show ?thesis by (simp add: step_weaken_W)
  next
    case (Inr l')
    let ?c = "if \<not> is_wav r' then convert_to_wav e ex r' st1 else (Inr r', st1)"
    obtain rr st2 where cr: "?c = (rr, st2)" by (cases ?c)
    have s2: "step ?W (\<lambda>ev. True) st1 st2"
      using cr step_convert_to_wav [of e ex r' st1 rr st2 names]
      by (auto split: if_splits intro: step_any step_refl)
    have s12: "step ?W (\<lambda>ev. True) st st2" using s1 s2 by (rule step_trans)
    show ?thesis
    proof (cases rr)
      case (Inl err)
      with res Inr cr have "st' = st2" by simp
      with s12 show ?thesis by (simp add: step_weaken_W)
    next
      case r'': (Inr r'')
      with res Inr cr have m: "merge_stereo e l' r'' out st2 = (r, st')" by simp
      have a: "step (\<lambda>p. ?W p \<or> p = out) (\<lambda>ev. True) st st'"
        using step_weaken_W [OF s12] step_weaken_out [OF step_merge_stereo [OF m]]
        by (rule step_trans)
      have b: "isl r \<longrightarrow> step ?W (\<lambda>ev. True) st st'"
      proof
        assume "isl r"
        then obtain err where "r = Inl err" by (cases r) simp_all
        with m have "step (\<lambda>p. False) (\<lambda>ev. True) st2 st'"
          using merge_stereo_failure by blast
        then have "step ?W (\<lambda>ev. True) st2 st'" by (rule step_weaken_none)
        with s12 show "step ?W (\<lambda>ev. True) st st'" by (rule step_trans)
      qed
      from a b show ?thesis by simp
    qed
  qed
  then show "step (\<lambda>p. ?W p \<or> p = out) (\<lambda>ev. True) st st'"
    and "isl r \<Longrightarrow> step ?W (\<lambda>ev. True) st st'" by simp_all
qed

lemma step_copy_branch:
  assumes "copy_result f out st = (r, st')"
  shows "step (\<lambda>p. W p \<or> p = out) (\<lambda>ev. True) st st' \<and>
         (isl r \<longrightarrow> step W (\<lambda>ev. True) st st')"
proof
  show "step (\<lambda>p. W p \<or> p = out) (\<lambda>ev. True) st st'"
    using step_copy_result [OF assms] by (rule step_weaken_out)
  show "isl r \<longrightarrow> step W (\<lambda>ev. True) st st'"
  proof
    assume "isl r"
    then obtain err where "r = Inl err" by (cases r) simp_all
    with assms have "step (\<lambda>p. False) (\<lambda>ev. True) st st'"
      using copy_result_failure by blast
    then show "step W (\<lambda>ev. True) st st'" by (rule step_weaken_none)
  qed
qed

lemma step_finalize_channels:
  assumes "finalize_channels e ex cur input_is_stereo oc out st = (r, st')"
  shows "step (\<lambda>p. scratch_target ex names p \<or> p = out) (\<lambda>ev. True) st st' \<and>
         (isl r \<longrightarrow> step (scratch_target ex names) (\<lambda>ev. True) st st')"
proof -
  let ?W = "scratch_target ex names"
  let ?goal = "step (\<lambda>p. ?W p \<or> p = out) (\<lambda>ev. True) st st' \<and>
         (isl r \<longrightarrow> step ?W (\<lambda>ev. True) st st')"
  have same: "st' = st \<Longrightarrow> ?goal" by (simp add: step_refl)
  consider (two) f0 f1 where "cur = [f0, f1]" | (one) f0 where "cur = [f0]"
    | (other) "cur = [] \<or> (\<exists>a b c ds. cur = a # b # c # ds)"
    by (cases cur rule: list.exhaust; cases "tl cur" rule: list.exhaust;
        cases "tl (tl cur)" rule: list.exhaust) auto
  then show ?goal
  proof cases
    case other
    with assms have "st' = st"
      by (auto simp: finalize_channels_def split: if_splits)
    then show ?thesis by (rule same)
  next
    case one
    show ?thesis
    proof (cases "oc = Some STEREO \<or> (oc = None \<and> input_is_stereo)")
      case True
      show ?thesis
      proof (cases "is_stereo f0")
        case st: True
        with assms one True have "copy_result f0 out st = (r, st')"
          by (auto simp: finalize_channels_def)
        then show ?thesis by (rule step_copy_branch)
      next
        case False
        with assms one True have "st' = st" by (auto simp: finalize_channels_def)
        then show ?thesis by (rule same)
      qed
    next
      case False
      with assms one have "copy_result f0 out st = (r, st')"
        by (auto simp: finalize_channels_def)
      then show ?thesis by (rule step_copy_branch)
    qed
  next
    case two
    show ?thesis
    proof (cases "oc = Some STEREO \<or> (oc = None \<and> input_is_stereo)")
      case False
      with assms two have "st' = st" by (auto simp: finalize_channels_def)
      then show ?thesis by (rule same)
    next
      case True
      let ?l = "first_with_channel 1 [f0, f1] f0"
      let ?r = "first_with_channel 2 [f0, f1] f1"
      let ?cl = "if \<not> is_wav ?l then convert_to_wav e ex ?l st else (Inr ?l, st)"
      obtain rl st1 where cl: "?cl = (rl, st1)" by (cases ?cl)
      from assms two True
      have full: "(case ?cl of
                (Inl err, s1) \<Rightarrow> (Inl err, s1)
              | (Inr l', s1) \<Rightarrow>
                  (case (if \<not> is_wav ?r then convert_to_wav e ex ?r s1 else (Inr ?r, s1)) of
                     (Inl err, s2) \<Rightarrow> (Inl err, s2)
                   | (Inr r'', s2) \<Rightarrow> merge_stereo e l' r'' out s2)) = (r, st')"
        by (simp add: finalize_channels_def Let_def)
      have res: "(case (rl, st1) of
                (Inl err, s1) \<Rightarrow> (Inl err, s1)
              | (Inr l', s1) \<Rightarrow>
                  (case (if \<not> is_wav ?r then convert_to_wav e ex ?r s1 else (Inr ?r, s1)) of
                     (Inl err, s2) \<Rightarrow> (Inl err, s2)
                   | (Inr r'', s2) \<Rightarrow> merge_stereo e l' r'' out s2)) = (r, st')"
        using full by (simp only: cl)
      from step_finalize_pair [OF cl res] show ?thesis by blast
    qed
  qed
qed

section \<open>Runs\<close>

lemma init_facts:
  assumes "PipelineExecutor_init e td keep st = (ex, st2)"
  shows "keep_temp ex = keep" and "dirs st2 = insert (temp_dir ex) (dirs st)"
    and "files st2 = files st" and "trace st2 = trace st @ [Mkdir (temp_dir ex)]"
  using assms
  by (auto simp: PipelineExecutor_init_def mkdir_def log_def split: option.splits)

lemma in_dir_self: "\<not> in_dir d d"
proof -
  have "\<not> starts_with (d @ s) d" if "s \<noteq> []" for s :: string
    using that by (induction d) (auto simp: neq_Nil_conv)
  then show ?thesis by (simp add: in_dir_def)
qed

lemma rmtree_facts:
  "d \<notin> dirs (rmtree d st)"
  "in_dir d p \<Longrightarrow> files (rmtree d st) p = None"
  "\<not> in_dir d p \<Longrightarrow> files (rmtree d st) p = files st p"
  "files st p = None \<Longrightarrow> files (rmtree d st) p = None"
  "trace (rmtree d st) = trace st @ [Rmtree d]"
  by (simp_all add: rmtree_def log_def)

lemma cleanup_cases:
  "cleanup ex st = (if keep_temp ex then st else rmtree (temp_dir ex) st)"
  by (simp add: cleanup_def)



lemma step_run_body:
  assumes rb: "run_body e ex ops ins out oc fmt st = (r, st')"
    and nm: "set (map name ops) \<subseteq> set names"
  shows "step (\<lambda>p. scratch_target ex names p \<or> p = out) (\<lambda>ev. True) st st' \<and>
         (isl r \<longrightarrow> step (scratch_target ex names) (\<lambda>ev. True) st st')"
proof -
  let ?W = "scratch_target ex names"
  let ?goal = "step (\<lambda>p. ?W p \<or> p = out) (\<lambda>ev. True) st st' \<and>
         (isl r \<longrightarrow> step ?W (\<lambda>ev. True) st st')"
  have weak: "step ?W (\<lambda>ev. True) st st' \<Longrightarrow> ?goal" by (simp add: step_weaken_W)
  obtain r1 st1 where li: "load_inputs e ins [] st = (r1, st1)"
    by (cases "load_inputs e ins [] st")
  have s1: "step ?W (\<lambda>ev. True) st st1" using li by (rule step_load_inputs)
  show ?goal
  proof (cases r1)
    case (Inl err)
    with rb li have "st' = st1" by (simp add: run_body_def)
    with s1 have "step ?W (\<lambda>ev. True) st st'" by simp
    then show ?thesis by (rule weak)
  next
    case (Inr audio)
    obtain r2 st2 where ro: "run_operations e ex 0 ops audio st1 = (r2, st2)"
      by (cases "run_operations e ex 0 ops audio st1")
    have s2: "step ?W (\<lambda>ev. True) st1 st2" using nm ro by (rule step_run_operations)
    have s12: "step ?W (\<lambda>ev. True) st st2" using s1 s2 by (rule step_trans)
    show ?thesis
    proof (cases r2)
      case (Inl err)
      with rb li Inr ro have "st' = st2" by (simp add: run_body_def Let_def)
      with s12 have "step ?W (\<lambda>ev. True) st st'" by simp
    then show ?thesis by (rule weak)
    next
      case cur: (Inr cur)
      obtain r3 st3 where ca: "convert_all e ex fmt cur st2 = (r3, st3)"
        by (cases "convert_all e ex fmt cur st2")
      have s3: "step ?W (\<lambda>ev. True) st2 st3" using ca by (rule step_convert_all)
      have s13: "step ?W (\<lambda>ev. True) st st3" using s12 s3 by (rule step_trans)
      show ?thesis
      proof (cases r3)
        case (Inl err)
        with rb li Inr ro cur ca have "st' = st3" by (simp add: run_body_def Let_def)
        with s13 have "step ?W (\<lambda>ev. True) st st'" by simp
    then show ?thesis by (rule weak)
      next
        case conv: (Inr conv)
        with rb li Inr ro cur ca
        have fc: "finalize_channels e ex conv (list_ex is_stereo audio) oc out st3 = (r, st')"
          by (simp add: run_body_def Let_def)
        from step_finalize_channels [OF fc, of names]
        have a: "step (\<lambda>p. ?W p \<or> p = out) (\<lambda>ev. True) st3 st'"
          and b: "isl r \<longrightarrow> step ?W (\<lambda>ev. True) st3 st'" by simp_all
        from step_weaken_W [OF s13] a
        have "step (\<lambda>p. ?W p \<or> p = out) (\<lambda>ev. True) st st'" by (rule step_trans)
        moreover from b s13 have "isl r \<longrightarrow> step ?W (\<lambda>ev. True) st st'"
          using step_trans by blast
        ultimately show ?thesis by simp
      qed
    qed
  qed
qed

lemma run_unfold:
  assumes "overwrite_step ow out st = (Inr u, st1)"
    and "PipelineExecutor_init e td keep st1 = (ex, st2)"
    and "run_body e ex ops ins out oc (case fmt of None \<Rightarrow> WAV | Some f \<Rightarrow> f) st2 = (r, st3)"
  shows "run e ops ins out td keep oc fmt ow st = (r, cleanup ex st3)"
  using assms by (simp add: run_def)

lemma run_overwrite_failure:
  "overwrite_step ow out st = (Inl err, st1) \<Longrightarrow>
     run e ops ins out td keep oc fmt ow st = (Inl err, st1)"
  by (simp add: run_def)

text \<open>
  C9. A run whose overwrite step did not fail creates an executor with a scratch
  directory. However the body of the run ends, by returning or by raising at any stage,
  \<^verbatim>\<open>cleanup\<close> is applied to the state the body leaves: afterwards the scratch directory
  exists exactly when retention was requested; without retention no file is left inside
  it; with retention the state the body left is unchanged, so the scratch files are all
  kept. (This is the teardown the \<^verbatim>\<open>with\<close> statement performs; what the Python runtime
  does later to a \<^verbatim>\<open>TemporaryDirectory\<close> object that is no longer referenced is outside
  this model.)
\<close>

theorem run_cleanup:
  assumes ov: "overwrite_step ow out st = (Inr u, st1)"
    and init: "PipelineExecutor_init e td keep st1 = (ex, st2)"
    and run: "run e ops ins out td keep oc fmt ow st = (r, st')"
  shows "(temp_dir ex \<in> dirs st') = keep \<and>
         (\<not> keep \<longrightarrow> (\<forall>p. in_dir (temp_dir ex) p \<longrightarrow> files st' p = None)) \<and>
         (\<exists>st3. run_body e ex ops ins out oc (case fmt of None \<Rightarrow> WAV | Some f \<Rightarrow> f) st2
                  = (r, st3) \<and>
                st' = cleanup ex st3 \<and> (keep \<longrightarrow> st' = st3))"
proof -
  let ?fmt = "case fmt of None \<Rightarrow> WAV | Some f \<Rightarrow> f"
  obtain r3 st3 where rb: "run_body e ex ops ins out oc ?fmt st2 = (r3, st3)"
    by (cases "run_body e ex ops ins out oc ?fmt st2")
  from run_unfold [OF ov init rb] run have r: "r3 = r" and st': "st' = cleanup ex st3"
    by simp_all
  from step_run_body [OF rb, of "map name ops"] have "dirs st3 = dirs st2"
    by (simp add: step_def)
  with init_facts(2) [OF init] have d: "temp_dir ex \<in> dirs st3" by simp
  from init_facts(1) [OF init] have k: "keep_temp ex = keep" .
  have "(temp_dir ex \<in> dirs st') = keep"
    using d k by (simp add: st' cleanup_cases rmtree_facts(1))
  moreover have "\<not> keep \<longrightarrow> (\<forall>p. in_dir (temp_dir ex) p \<longrightarrow> files st' p = None)"
    using k by (simp add: st' cleanup_cases rmtree_facts(2))
  moreover have "keep \<longrightarrow> st' = st3" using k by (simp add: st' cleanup_cases)
  ultimately show ?thesis using rb r st' by blast
qed












lemma init_given_dir:
  "PipelineExecutor_init e (Some d) k st =
     (\<lparr>temp_dir = d, keep_temp = k, temp_dir_obj = False\<rparr>, mkdir d (st\<lparr>counter := 0\<rparr>))"
  by (simp add: PipelineExecutor_init_def)

theorem run_cleanup_witness:
  "overwrite_step False ''out2.wav'' st_in = (Inr (), st_in) \<and>
   isl (fst (run env0 [] [''in.ana''] ''out2.wav'' (Some ''tmp'') False (Some STEREO) None False
          st_in)) \<and>
   ''tmp'' \<notin> dirs (snd (run env0 [] [''in.ana''] ''out2.wav'' (Some ''tmp'') False
          (Some STEREO) None False st_in)) \<and>
   files (snd (run env0 [] [''in.ana''] ''out2.wav'' (Some ''tmp'') False (Some STEREO) None
          False st_in)) ''tmp/in_0001.wav'' = None \<and>
   isl (fst (run env0 [] [''in.ana''] ''out2.wav'' (Some ''tmp'') True (Some STEREO) None False
          st_in)) \<and>
   files (snd (run env0 [] [''in.ana''] ''out2.wav'' (Some ''tmp'') True (Some STEREO) None
          False st_in)) ''tmp/in_0001.wav'' = Some Audio"
proof -
  let ?r = "run env0 [] [''in.ana''] ''out2.wav'' (Some ''tmp'') False (Some STEREO) None False
          st_in"
  let ?ex = "\<lparr>temp_dir = ''tmp'', keep_temp = False, temp_dir_obj = False\<rparr>"
  have ov: "overwrite_step False ''out2.wav'' st_in = (Inr (), st_in)"
    by (simp add: overwrite_step_def)
  have init: "PipelineExecutor_init env0 (Some ''tmp'') False st_in =
      (?ex, mkdir ''tmp'' (st_in\<lparr>counter := 0\<rparr>))"
    by (rule init_given_dir)
  have run: "?r = (fst ?r, snd ?r)" by simp
  from run_cleanup [OF ov init run]
  have a: "(temp_dir ?ex \<in> dirs (snd ?r)) = False"
    and b: "\<forall>p. in_dir (temp_dir ?ex) p \<longrightarrow> files (snd ?r) p = None"
    by simp_all
  have "in_dir ''tmp'' ''tmp/in_0001.wav''" by code_simp
  with b have c: "files (snd ?r) ''tmp/in_0001.wav'' = None" by simp
  have d: "isl (fst ?r)" by code_simp
  have e: "isl (fst (run env0 [] [''in.ana''] ''out2.wav'' (Some ''tmp'') True (Some STEREO) None
          False st_in))" by code_simp
  have f: "files (snd (run env0 [] [''in.ana''] ''out2.wav'' (Some ''tmp'') True (Some STEREO)
          None False st_in)) ''tmp/in_0001.wav'' = Some Audio" by code_simp
  from ov a c d e f show ?thesis by simp
qed



end
